theory Spec2Isabelle
  imports Main "HOL-Library.Word"
begin

unbundle bit_operations_syntax

section \<open>Python values\<close>

text \<open>
  A Python \<open>str\<close> is a sequence of Unicode code points and a \<open>bytes\<close> object a sequence
  of octets.  String literals of the source are written \<open>lit ''...''\<close>.
\<close>

type_synonym byte = "8 word"
type_synonym ustr = "nat list"

definition lit :: "string \<Rightarrow> ustr" where
  "lit s = map of_char s"

definition blit :: "string \<Rightarrow> byte list" where
  "blit s = map of_char s"

text \<open>The exceptions that the modelled code and library functions raise.\<close>

datatype exn =
    UnicodeDecodeError | UnicodeEncodeError | ValueError | BinasciiError
  | JSONDecodeError | KeyError | TypeError | AttributeError | IndexError
  | HTTPError nat | URLError | TimeoutError | OtherError ustr

definition seq :: "exn + 'a \<Rightarrow> ('a \<Rightarrow> exn + 'b) \<Rightarrow> exn + 'b" where
  "seq m f = (case m of Inl e \<Rightarrow> Inl e | Inr v \<Rightarrow> f v)"

text \<open>\<open>s.rstrip(c)\<close> for a one-character argument, and \<open>s.startswith(p)\<close>.\<close>

definition rstrip :: "'a \<Rightarrow> 'a list \<Rightarrow> 'a list" where
  "rstrip c s = rev (dropWhile (\<lambda>x. x = c) (rev s))"

fun startswith :: "'a list \<Rightarrow> 'a list \<Rightarrow> bool" where
  "startswith s [] = True"
| "startswith [] (p # ps) = False"
| "startswith (x # xs) (p # ps) = (x = p \<and> startswith xs ps)"

section \<open>UTF-8\<close>

text \<open>
  \<open>str.encode()\<close> (UTF-8, strict): a surrogate code point cannot be encoded.
\<close>

definition utf8_encode_cp :: "nat \<Rightarrow> exn + byte list" where
  "utf8_encode_cp c =
     (if c < 0x80 then Inr [of_nat c]
      else if c < 0x800 then Inr [of_nat (0xC0 + c div 64), of_nat (0x80 + c mod 64)]
      else if 0xD800 \<le> c \<and> c \<le> 0xDFFF then Inl UnicodeEncodeError
      else if c < 0x10000 then
        Inr [of_nat (0xE0 + c div 4096), of_nat (0x80 + c div 64 mod 64), of_nat (0x80 + c mod 64)]
      else if c < 0x110000 then
        Inr [of_nat (0xF0 + c div 262144), of_nat (0x80 + c div 4096 mod 64),
             of_nat (0x80 + c div 64 mod 64), of_nat (0x80 + c mod 64)]
      else Inl UnicodeEncodeError)"

fun encode :: "ustr \<Rightarrow> exn + byte list" where
  "encode [] = Inr []"
| "encode (c # cs) =
     (case utf8_encode_cp c of
        Inl e \<Rightarrow> Inl e
      | Inr bs \<Rightarrow> (case encode cs of Inl e \<Rightarrow> Inl e | Inr rest \<Rightarrow> Inr (bs @ rest)))"

text \<open>
  One step of the UTF-8 decoder on the octets (as numbers) that are left: a code point and
  the number of octets it took, a malformed span of the given length (an invalid start
  byte, or an invalid continuation byte after that many good octets), or a sequence cut off
  by the end of the data.
\<close>

datatype utf8_step = Scalar nat nat | Malformed nat | Truncated

definition is_cont :: "nat \<Rightarrow> bool" where
  "is_cont b = (0x80 \<le> b \<and> b < 0xC0)"

definition bad_second :: "nat \<Rightarrow> nat \<Rightarrow> bool" where
  "bad_second b0 b1 =
     (\<not> is_cont b1 \<or> (b0 = 0xE0 \<and> b1 < 0xA0) \<or> (b0 = 0xED \<and> 0xA0 \<le> b1)
      \<or> (b0 = 0xF0 \<and> b1 < 0x90) \<or> (b0 = 0xF4 \<and> 0x90 \<le> b1))"

fun utf8_next :: "nat list \<Rightarrow> utf8_step" where
  "utf8_next [] = Truncated"
| "utf8_next (b0 # bs) =
     (if b0 < 0x80 then Scalar b0 1
      else if b0 < 0xC2 then Malformed 1
      else if b0 < 0xE0 then
        (case bs of
           [] \<Rightarrow> Truncated
         | b1 # _ \<Rightarrow> if is_cont b1 then Scalar ((b0 - 0xC0) * 64 + (b1 - 0x80)) 2 else Malformed 1)
      else if b0 < 0xF0 then
        (case bs of
           [] \<Rightarrow> Truncated
         | [b1] \<Rightarrow> if bad_second b0 b1 then Malformed 1 else Truncated
         | b1 # b2 # _ \<Rightarrow>
             if bad_second b0 b1 then Malformed 1
             else if \<not> is_cont b2 then Malformed 2
             else Scalar ((b0 - 0xE0) * 4096 + (b1 - 0x80) * 64 + (b2 - 0x80)) 3)
      else if b0 < 0xF5 then
        (case bs of
           [] \<Rightarrow> Truncated
         | [b1] \<Rightarrow> if bad_second b0 b1 then Malformed 1 else Truncated
         | [b1, b2] \<Rightarrow>
             if bad_second b0 b1 then Malformed 1
             else if \<not> is_cont b2 then Malformed 2 else Truncated
         | b1 # b2 # b3 # _ \<Rightarrow>
             if bad_second b0 b1 then Malformed 1
             else if \<not> is_cont b2 then Malformed 2
             else if \<not> is_cont b3 then Malformed 3
             else Scalar ((b0 - 0xF0) * 262144 + (b1 - 0x80) * 4096 + (b2 - 0x80) * 64 + (b3 - 0x80)) 4)
      else Malformed 1)"

text \<open>
  The three error handlers the program meets: \<open>strict\<close> (\<open>bytes.decode()\<close>), \<open>replace\<close>
  (\<open>urllib.parse.unquote\<close>) and \<open>surrogatepass\<close> (\<open>json.loads\<close> on bytes).  After a span of \<open>k\<close> octets the decoder goes on with the octets behind it.
\<close>

datatype handler = Strict | Replace | Surrogatepass

definition surrogate_at :: "nat list \<Rightarrow> nat option" where
  "surrogate_at bs =
     (case bs of
        b0 # b1 # b2 # _ \<Rightarrow>
          if b0 div 16 = 0xE \<and> is_cont b1 \<and> is_cont b2 then
            (let c = (b0 mod 16) * 4096 + (b1 mod 64) * 64 + b2 mod 64
             in if 0xD800 \<le> c \<and> c \<le> 0xDFFF then Some c else None)
          else None
      | _ \<Rightarrow> None)"

fun utf8_decode_from :: "handler \<Rightarrow> nat list \<Rightarrow> exn + ustr" where
  "utf8_decode_from h [] = Inr []"
| "utf8_decode_from h (b # bs) =
     (case utf8_next (b # bs) of
        Scalar c k \<Rightarrow>
          (case utf8_decode_from h (drop (k - 1) bs) of
             Inl e \<Rightarrow> Inl e | Inr cs \<Rightarrow> Inr (c # cs))
      | Malformed k \<Rightarrow>
          (case h of
             Strict \<Rightarrow> Inl UnicodeDecodeError
           | Replace \<Rightarrow>
               (case utf8_decode_from h (drop (k - 1) bs) of
                  Inl e \<Rightarrow> Inl e | Inr cs \<Rightarrow> Inr (0xFFFD # cs))
           | Surrogatepass \<Rightarrow>
               (case surrogate_at (b # bs) of
                  None \<Rightarrow> Inl UnicodeDecodeError
                | Some c \<Rightarrow>
                    (case utf8_decode_from h (drop 2 bs) of
                       Inl e \<Rightarrow> Inl e | Inr cs \<Rightarrow> Inr (c # cs))))
      | Truncated \<Rightarrow>
          (case h of
             Strict \<Rightarrow> Inl UnicodeDecodeError
           | Replace \<Rightarrow> Inr [0xFFFD]
           | Surrogatepass \<Rightarrow>
               (case surrogate_at (b # bs) of
                  None \<Rightarrow> Inl UnicodeDecodeError
                | Some c \<Rightarrow>
                    (case utf8_decode_from h (drop 2 bs) of
                       Inl e \<Rightarrow> Inl e | Inr cs \<Rightarrow> Inr (c # cs)))))"

definition utf8_decode :: "handler \<Rightarrow> byte list \<Rightarrow> exn + ustr" where
  "utf8_decode h bs = utf8_decode_from h (map unat bs)"

definition decode :: "byte list \<Rightarrow> exn + ustr" where
  "decode bs = utf8_decode Strict bs"

section \<open>Base64 (\<open>binascii\<close>, \<open>base64\<close>)\<close>

definition b64_table :: "byte list" where
  "b64_table = blit ''ABCDEFGHIJKLMNOPQRSTUVWXYZabcdefghijklmnopqrstuvwxyz0123456789+/''"

definition b64_pad :: byte where
  "b64_pad = 0x3D"

text \<open>
  \<open>binascii.b2a_base64\<close> without the newline: three octets give four digits; one or two
  octets left over give two or three digits and \<open>=\<close> signs up to four characters.
\<close>

fun b2a_base64 :: "nat list \<Rightarrow> byte list" where
  "b2a_base64 (a # b # c # rest) =
     [b64_table ! (a div 4), b64_table ! ((a mod 4) * 16 + b div 16),
      b64_table ! ((b mod 16) * 4 + c div 64), b64_table ! (c mod 64)] @ b2a_base64 rest"
| "b2a_base64 [a, b] =
     [b64_table ! (a div 4), b64_table ! ((a mod 4) * 16 + b div 16),
      b64_table ! ((b mod 16) * 4), b64_pad]"
| "b2a_base64 [a] = [b64_table ! (a div 4), b64_table ! ((a mod 4) * 16), b64_pad, b64_pad]"
| "b2a_base64 [] = []"

definition b64encode :: "byte list \<Rightarrow> byte list" where
  "b64encode s = b2a_base64 (map unat s)"

text \<open>\<open>urlsafe_b64encode\<close> translates \<open>+\<close> to \<open>-\<close> and \<open>/\<close> to \<open>_\<close> in the standard encoding.\<close>

definition urlsafe_encode_translation :: "byte \<Rightarrow> byte" where
  "urlsafe_encode_translation c = (if c = 0x2B then 0x2D else if c = 0x2F then 0x5F else c)"

definition urlsafe_b64encode :: "byte list \<Rightarrow> byte list" where
  "urlsafe_b64encode s = map urlsafe_encode_translation (b64encode s)"

section \<open>SHA-256 (\<open>hashlib.sha256(m).digest()\<close>)\<close>

type_synonym w32 = "32 word"
type_synonym hash_state = "w32 \<times> w32 \<times> w32 \<times> w32 \<times> w32 \<times> w32 \<times> w32 \<times> w32"

definition K256 :: "w32 list" where
  "K256 =
     [
      0x428A2F98, 0x71374491, 0xB5C0FBCF, 0xE9B5DBA5, 0x3956C25B, 0x59F111F1,
      0x923F82A4, 0xAB1C5ED5, 0xD807AA98, 0x12835B01, 0x243185BE, 0x550C7DC3,
      0x72BE5D74, 0x80DEB1FE, 0x9BDC06A7, 0xC19BF174, 0xE49B69C1, 0xEFBE4786,
      0x0FC19DC6, 0x240CA1CC, 0x2DE92C6F, 0x4A7484AA, 0x5CB0A9DC, 0x76F988DA,
      0x983E5152, 0xA831C66D, 0xB00327C8, 0xBF597FC7, 0xC6E00BF3, 0xD5A79147,
      0x06CA6351, 0x14292967, 0x27B70A85, 0x2E1B2138, 0x4D2C6DFC, 0x53380D13,
      0x650A7354, 0x766A0ABB, 0x81C2C92E, 0x92722C85, 0xA2BFE8A1, 0xA81A664B,
      0xC24B8B70, 0xC76C51A3, 0xD192E819, 0xD6990624, 0xF40E3585, 0x106AA070,
      0x19A4C116, 0x1E376C08, 0x2748774C, 0x34B0BCB5, 0x391C0CB3, 0x4ED8AA4A,
      0x5B9CCA4F, 0x682E6FF3, 0x748F82EE, 0x78A5636F, 0x84C87814, 0x8CC70208,
      0x90BEFFFA, 0xA4506CEB, 0xBEF9A3F7, 0xC67178F2]"

definition H256 :: hash_state where
  "H256 = (0x6A09E667, 0xBB67AE85, 0x3C6EF372, 0xA54FF53A,
           0x510E527F, 0x9B05688C, 0x1F83D9AB, 0x5BE0CD19)"

definition rotr :: "nat \<Rightarrow> w32 \<Rightarrow> w32" where
  "rotr n x = drop_bit n x OR push_bit (32 - n) x"

definition ch :: "w32 \<Rightarrow> w32 \<Rightarrow> w32 \<Rightarrow> w32" where
  "ch x y z = (x AND y) XOR (NOT x AND z)"

definition maj :: "w32 \<Rightarrow> w32 \<Rightarrow> w32 \<Rightarrow> w32" where
  "maj x y z = (x AND y) XOR (x AND z) XOR (y AND z)"

definition bsig0 :: "w32 \<Rightarrow> w32" where
  "bsig0 x = rotr 2 x XOR rotr 13 x XOR rotr 22 x"

definition bsig1 :: "w32 \<Rightarrow> w32" where
  "bsig1 x = rotr 6 x XOR rotr 11 x XOR rotr 25 x"

definition ssig0 :: "w32 \<Rightarrow> w32" where
  "ssig0 x = rotr 7 x XOR rotr 18 x XOR drop_bit 3 x"

definition ssig1 :: "w32 \<Rightarrow> w32" where
  "ssig1 x = rotr 17 x XOR rotr 19 x XOR drop_bit 10 x"

definition be64 :: "64 word \<Rightarrow> byte list" where
  "be64 n = map (\<lambda>i. ucast (drop_bit (8 * i) n)) [7, 6, 5, 4, 3, 2, 1, 0]"

definition sha_pad :: "byte list \<Rightarrow> byte list" where
  "sha_pad m =
     m @ [0x80] @ replicate ((119 - length m mod 64) mod 64) 0 @ be64 (8 * of_nat (length m))"

fun blocks :: "byte list \<Rightarrow> byte list list" where
  "blocks bs = (if length bs < 64 then [] else take 64 bs # blocks (drop 64 bs))"

declare blocks.simps [simp del]

fun be_words :: "byte list \<Rightarrow> w32 list" where
  "be_words (a # b # c # d # rest) =
     (push_bit 24 (ucast a) OR push_bit 16 (ucast b) OR push_bit 8 (ucast c) OR ucast d)
       # be_words rest"
| "be_words _ = []"

fun schedule :: "nat \<Rightarrow> w32 list \<Rightarrow> w32 list" where
  "schedule 0 w = w"
| "schedule (Suc n) w =
     (let t = length w in
      schedule n (w @ [ssig1 (w ! (t - 2)) + w ! (t - 7) + ssig0 (w ! (t - 15)) + w ! (t - 16)]))"

definition round_step :: "w32 \<times> w32 \<Rightarrow> hash_state \<Rightarrow> hash_state" where
  "round_step kw s =
     (case s of (a, b, c, d, e, f, g, h) \<Rightarrow>
        (let t1 = h + bsig1 e + ch e f g + fst kw + snd kw;
             t2 = bsig0 a + maj a b c
         in (t1 + t2, a, b, c, d + t1, e, f, g)))"

definition add_state :: "hash_state \<Rightarrow> hash_state \<Rightarrow> hash_state" where
  "add_state s t =
     (case s of (a, b, c, d, e, f, g, h) \<Rightarrow>
      case t of (a', b', c', d', e', f', g', h') \<Rightarrow>
        (a + a', b + b', c + c', d + d', e + e', f + f', g + g', h + h'))"

definition compress :: "byte list \<Rightarrow> hash_state \<Rightarrow> hash_state" where
  "compress block s = add_state s (fold round_step (zip K256 (schedule 48 (be_words block))) s)"

definition word_bytes :: "w32 \<Rightarrow> byte list" where
  "word_bytes w = [ucast (drop_bit 24 w), ucast (drop_bit 16 w), ucast (drop_bit 8 w), ucast w]"

definition sha256_digest :: "byte list \<Rightarrow> byte list" where
  "sha256_digest m =
     (case fold compress (blocks (sha_pad m)) H256 of (a, b, c, d, e, f, g, h) \<Rightarrow>
        concat (map word_bytes [a, b, c, d, e, f, g, h]))"

section \<open>\<open>secrets\<close> and \<open>urllib.parse\<close>: building a query\<close>

text \<open>
  \<open>secrets.token_bytes(32)\<close> is an input of the model: the octets the system's random
  source returned.  \<open>secrets.token_urlsafe\<close> encodes such octets.
\<close>

definition token_urlsafe :: "byte list \<Rightarrow> exn + ustr" where
  "token_urlsafe tok = decode (rstrip b64_pad (urlsafe_b64encode tok))"

definition always_safe :: "byte list" where
  "always_safe =
     blit ''ABCDEFGHIJKLMNOPQRSTUVWXYZabcdefghijklmnopqrstuvwxyz0123456789_.-~''"

definition hexdig :: "nat \<Rightarrow> nat" where
  "hexdig n = (if n < 10 then 0x30 + n else 0x41 + (n - 10))"

definition quote_byte :: "byte \<Rightarrow> ustr" where
  "quote_byte b =
     (if b \<in> set always_safe then [unat b]
      else if b = 0x20 then [0x2B]
      else [0x25, hexdig (unat b div 16), hexdig (unat b mod 16)])"

definition quote_plus :: "ustr \<Rightarrow> exn + ustr" where
  "quote_plus s = (case encode s of Inl e \<Rightarrow> Inl e | Inr bs \<Rightarrow> Inr (concat (map quote_byte bs)))"

fun urlencode_pairs :: "(ustr \<times> ustr) list \<Rightarrow> exn + ustr list" where
  "urlencode_pairs [] = Inr []"
| "urlencode_pairs ((k, v) # kvs) =
     seq (quote_plus k) (\<lambda>k'.
     seq (quote_plus v) (\<lambda>v'.
     seq (urlencode_pairs kvs) (\<lambda>rest. Inr ((k' @ lit ''='' @ v') # rest))))"

fun join :: "ustr \<Rightarrow> ustr list \<Rightarrow> ustr" where
  "join sep [] = []"
| "join sep [x] = x"
| "join sep (x # y # ys) = x @ sep @ join sep (y # ys)"

definition urlencode :: "(ustr \<times> ustr) list \<Rightarrow> exn + ustr" where
  "urlencode query = seq (urlencode_pairs query) (\<lambda>l. Inr (join (lit ''&'') l))"

section \<open>JSON values and \<open>json.loads\<close>\<close>

text \<open>
  The values \<open>json.loads\<close> returns.  A \<open>dict\<close> is the list of its items in insertion order,
  with distinct keys.  A \<open>float\<close> is kept as the text that \<open>float()\<close> is called on (or the
  name of the constant \<open>NaN\<close>, \<open>Infinity\<close>, \<open>-Infinity\<close>): the model does not compute with
  floats and never compares two of them.
\<close>

datatype json =
    JNull | JBool bool | JInt int | JFloat ustr | JStr ustr
  | JArr "json list" | JObj "(ustr \<times> json) list"

fun dict_set :: "'k \<Rightarrow> 'v \<Rightarrow> ('k \<times> 'v) list \<Rightarrow> ('k \<times> 'v) list" where
  "dict_set k v [] = [(k, v)]"
| "dict_set k v (p # ps) = (if fst p = k then (k, v) # ps else p # dict_set k v ps)"

definition dict_of :: "('k \<times> 'v) list \<Rightarrow> ('k \<times> 'v) list" where
  "dict_of pairs = foldl (\<lambda>d kv. dict_set (fst kv) (snd kv) d) [] pairs"

definition dict_get :: "('k \<times> 'v) list \<Rightarrow> 'k \<Rightarrow> 'v option" where
  "dict_get d k = map_of d k"

text \<open>
  The scanner reads the text from left to right.  A token the scanner cannot read becomes
  \<open>TBad\<close> with the exception scanning it raises; the exception is raised only if the
  parser gets as far as asking for a value there.
\<close>

datatype tok = TLBrace | TRBrace | TLBrack | TRBrack | TComma | TColon | TVal json | TBad exn

definition is_digit :: "nat \<Rightarrow> bool" where
  "is_digit c = (0x30 \<le> c \<and> c \<le> 0x39)"

definition is_ws :: "nat \<Rightarrow> bool" where
  "is_ws c = (c = 0x20 \<or> c = 0x09 \<or> c = 0x0A \<or> c = 0x0D)"

definition hexval :: "nat \<Rightarrow> nat option" where
  "hexval c =
     (if is_digit c then Some (c - 0x30)
      else if 0x41 \<le> c \<and> c \<le> 0x46 then Some (c - 0x41 + 10)
      else if 0x61 \<le> c \<and> c \<le> 0x66 then Some (c - 0x61 + 10)
      else None)"

fun hex4 :: "nat list \<Rightarrow> nat option" where
  "hex4 (a # b # c # d # _) =
     (case (hexval a, hexval b, hexval c, hexval d) of
        (Some x, Some y, Some z, Some w) \<Rightarrow> Some (x * 4096 + y * 256 + z * 16 + w)
      | _ \<Rightarrow> None)"
| "hex4 _ = None"

definition backslash :: "nat \<Rightarrow> nat option" where
  "backslash e =
     (if e = 0x22 \<or> e = 0x5C \<or> e = 0x2F then Some e
      else if e = 0x62 then Some 0x08 else if e = 0x66 then Some 0x0C
      else if e = 0x6E then Some 0x0A else if e = 0x72 then Some 0x0D
      else if e = 0x74 then Some 0x09 else None)"

text \<open>
  \<open>scanstring\<close> (strict) behind the opening quote: the string and the number of characters
  read, the closing quote included.
\<close>

definition cons_char :: "nat \<Rightarrow> nat \<Rightarrow> (ustr \<times> nat) option \<Rightarrow> (ustr \<times> nat) option" where
  "cons_char c k r = (case r of None \<Rightarrow> None | Some (s, n) \<Rightarrow> Some (c # s, n + k))"

fun scanstring :: "nat list \<Rightarrow> (ustr \<times> nat) option" where
  "scanstring [] = None"
| "scanstring (c # cs) =
     (if c = 0x22 then Some ([], 1)
      else if c = 0x5C then
        (case cs of
           [] \<Rightarrow> None
         | e # rest \<Rightarrow>
             if e = 0x75 then
               (case hex4 rest of
                  None \<Rightarrow> None
                | Some u \<Rightarrow>
                    if 0xD800 \<le> u \<and> u \<le> 0xDBFF \<and> startswith (drop 4 rest) [0x5C, 0x75] then
                      (case hex4 (drop 6 rest) of
                         None \<Rightarrow> None
                       | Some u2 \<Rightarrow>
                           if 0xDC00 \<le> u2 \<and> u2 \<le> 0xDFFF then
                             cons_char (0x10000 + (u - 0xD800) * 1024 + (u2 - 0xDC00)) 12
                               (scanstring (drop 10 rest))
                           else cons_char u 6 (scanstring (drop 4 rest)))
                    else cons_char u 6 (scanstring (drop 4 rest)))
             else
               (case backslash e of
                  None \<Rightarrow> None
                | Some x \<Rightarrow> cons_char x 2 (scanstring rest)))
      else if c < 0x20 then None
      else cons_char c 1 (scanstring cs))"

text \<open>
  A number: \<open>-?(0|[1-9][0-9]*)(\.[0-9]+)?([eE][-+]?[0-9]+)?\<close>, the longest match.  With a
  fraction or an exponent it is a float; otherwise an \<open>int\<close>, which is refused with
  \<open>ValueError\<close> beyond 4300 digits.
\<close>

definition int_of_digits :: "nat list \<Rightarrow> int" where
  "int_of_digits ds = foldl (\<lambda>n d. 10 * n + int (d - 0x30)) 0 ds"

definition scan_frac :: "nat list \<Rightarrow> nat" where
  "scan_frac s =
     (case s of
        d # c # _ \<Rightarrow>
          if d = 0x2E \<and> is_digit c then 1 + length (takeWhile is_digit (tl s)) else 0
      | _ \<Rightarrow> 0)"

definition scan_exp :: "nat list \<Rightarrow> nat" where
  "scan_exp s =
     (case s of
        e # rest \<Rightarrow>
          if e = 0x65 \<or> e = 0x45 then
            (let sgn = (case rest of c # _ \<Rightarrow> if c = 0x2D \<or> c = 0x2B then 1 else 0 | [] \<Rightarrow> 0);
                 n = length (takeWhile is_digit (drop sgn rest))
             in if n = 0 then 0 else 1 + sgn + n)
          else 0
      | [] \<Rightarrow> 0)"

definition scan_number :: "nat list \<Rightarrow> (tok \<times> nat) option" where
  "scan_number s =
     (let sgn = (case s of c # _ \<Rightarrow> if c = 0x2D then 1 else 0 | [] \<Rightarrow> 0);
          body = drop sgn s;
          digits = (case body of
                      c # _ \<Rightarrow> if c = 0x30 then [c] else takeWhile is_digit body
                    | [] \<Rightarrow> [])
      in if digits = [] then None
         else
           (let n = sgn + length digits;
                f = scan_frac (drop n s);
                x = scan_exp (drop (n + f) s)
            in if f = 0 \<and> x = 0 then
                 Some (if 4300 < length digits then TBad ValueError
                       else TVal (JInt (if sgn = 1 then - int_of_digits digits
                                        else int_of_digits digits)), n)
               else Some (TVal (JFloat (take (n + f + x) s)), n + f + x)))"

definition punct :: "nat \<Rightarrow> tok option" where
  "punct c =
     (if c = 0x7B then Some TLBrace else if c = 0x7D then Some TRBrace
      else if c = 0x5B then Some TLBrack else if c = 0x5D then Some TRBrack
      else if c = 0x2C then Some TComma else if c = 0x3A then Some TColon else None)"

definition constants :: "(string \<times> json) list" where
  "constants =
     [(''null'', JNull), (''true'', JBool True), (''false'', JBool False),
      (''NaN'', JFloat (lit ''NaN'')), (''Infinity'', JFloat (lit ''Infinity'')),
      (''-Infinity'', JFloat (lit ''-Infinity''))]"

definition scan_constant :: "nat list \<Rightarrow> (tok \<times> nat) option" where
  "scan_constant s =
     (case filter (\<lambda>kv. startswith s (lit (fst kv))) constants of
        [] \<Rightarrow> None
      | kv # _ \<Rightarrow> Some (TVal (snd kv), length (fst kv)))"

text \<open>One token and the number of characters it takes (at least one).\<close>

definition scan_token :: "nat list \<Rightarrow> tok \<times> nat" where
  "scan_token s =
     (case s of
        [] \<Rightarrow> (TBad JSONDecodeError, 1)
      | c # cs \<Rightarrow>
          if c = 0x22 then
            (case scanstring cs of
               None \<Rightarrow> (TBad JSONDecodeError, 1)
             | Some (str, n) \<Rightarrow> (TVal (JStr str), 1 + n))
          else
            (case punct c of
               Some t \<Rightarrow> (t, 1)
             | None \<Rightarrow>
                 (case scan_constant s of
                    Some r \<Rightarrow> r
                  | None \<Rightarrow>
                      (case scan_number s of
                         Some r \<Rightarrow> r
                       | None \<Rightarrow> (TBad JSONDecodeError, 1)))))"

fun tokenize :: "nat list \<Rightarrow> tok list" where
  "tokenize [] = []"
| "tokenize (c # cs) =
     (if is_ws c then tokenize cs
      else
        (case scan_token (c # cs) of
           (TBad e, _) \<Rightarrow> [TBad e]
         | (t, n) \<Rightarrow> t # tokenize (drop (n - 1) cs)))"

text \<open>
  The parser: the containers that are open, innermost first, and what may come next.
  \<open>FKey k\<close> lies on its object while the value of key \<open>k\<close> is read.
\<close>

datatype frame = FArr "json list" | FObj "(ustr \<times> json) list" | FKey ustr

datatype mode = MValue | MValueOrEnd | MKeyOrEnd | MKey | MColon | MAfter | MDone json | MFail

fun reduce :: "json \<Rightarrow> frame list \<Rightarrow> mode \<times> frame list" where
  "reduce v [] = (MDone v, [])"
| "reduce v (FArr xs # st) = (MAfter, FArr (v # xs) # st)"
| "reduce v (FKey k # FObj ps # st) = (MAfter, FObj ((k, v) # ps) # st)"
| "reduce v _ = (MFail, [])"

definition shift_value :: "frame list \<Rightarrow> tok \<Rightarrow> exn + (mode \<times> frame list)" where
  "shift_value st t =
     (case t of
        TVal v \<Rightarrow> Inr (reduce v st)
      | TLBrack \<Rightarrow> Inr (MValueOrEnd, FArr [] # st)
      | TLBrace \<Rightarrow> Inr (MKeyOrEnd, FObj [] # st)
      | TBad e \<Rightarrow> Inl e
      | _ \<Rightarrow> Inl JSONDecodeError)"

definition shift_key :: "frame list \<Rightarrow> tok \<Rightarrow> exn + (mode \<times> frame list)" where
  "shift_key st t =
     (case t of
        TVal (JStr k) \<Rightarrow> Inr (MColon, FKey k # st)
      | _ \<Rightarrow> Inl JSONDecodeError)"

definition shift :: "mode \<Rightarrow> frame list \<Rightarrow> tok \<Rightarrow> exn + (mode \<times> frame list)" where
  "shift m st t =
     (case m of
        MValue \<Rightarrow> shift_value st t
      | MValueOrEnd \<Rightarrow>
          (case (st, t) of
             (FArr xs # st', TRBrack) \<Rightarrow> Inr (reduce (JArr []) st')
           | _ \<Rightarrow> shift_value st t)
      | MKeyOrEnd \<Rightarrow>
          (case (st, t) of
             (FObj ps # st', TRBrace) \<Rightarrow> Inr (reduce (JObj []) st')
           | _ \<Rightarrow> shift_key st t)
      | MKey \<Rightarrow> shift_key st t
      | MColon \<Rightarrow> (case t of TColon \<Rightarrow> Inr (MValue, st) | _ \<Rightarrow> Inl JSONDecodeError)
      | MAfter \<Rightarrow>
          (case (st, t) of
             (FArr xs # st', TComma) \<Rightarrow> Inr (MValue, st)
           | (FArr xs # st', TRBrack) \<Rightarrow> Inr (reduce (JArr (rev xs)) st')
           | (FObj ps # st', TComma) \<Rightarrow> Inr (MKey, st)
           | (FObj ps # st', TRBrace) \<Rightarrow> Inr (reduce (JObj (dict_of (rev ps))) st')
           | _ \<Rightarrow> Inl JSONDecodeError)
      | MDone v \<Rightarrow> Inl JSONDecodeError
      | MFail \<Rightarrow> Inl JSONDecodeError)"

fun parse :: "mode \<Rightarrow> frame list \<Rightarrow> tok list \<Rightarrow> exn + json" where
  "parse m st [] = (case m of MDone v \<Rightarrow> Inr v | _ \<Rightarrow> Inl JSONDecodeError)"
| "parse m st (t # ts) =
     (case shift m st t of Inl e \<Rightarrow> Inl e | Inr (m', st') \<Rightarrow> parse m' st' ts)"

text \<open>
  \<open>json.loads\<close> on a \<open>str\<close>: a leading byte order mark is refused.  The nesting of arrays
  and objects is not bounded here; the interpreter bounds it by its recursion limit.
\<close>

definition json_loads_str :: "ustr \<Rightarrow> exn + json" where
  "json_loads_str s =
     (if startswith s [0xFEFF] then Inl JSONDecodeError else parse MValue [] (tokenize s))"

text \<open>
  \<open>json.loads\<close> on \<open>bytes\<close> first decodes them, with the encoding \<open>detect_encoding\<close> finds
  and the \<open>surrogatepass\<close> handler.
\<close>

datatype encoding = UTF8 | UTF8_sig | UTF16 | UTF16_le | UTF16_be | UTF32 | UTF32_le | UTF32_be

definition detect_encoding :: "nat list \<Rightarrow> encoding" where
  "detect_encoding b =
     (if startswith b [0x00, 0x00, 0xFE, 0xFF] \<or> startswith b [0xFF, 0xFE, 0x00, 0x00] then UTF32
      else if startswith b [0xFE, 0xFF] \<or> startswith b [0xFF, 0xFE] then UTF16
      else if startswith b [0xEF, 0xBB, 0xBF] then UTF8_sig
      else
        (case b of
           b0 # b1 # b2 # b3 # _ \<Rightarrow>
             if b0 = 0 then (if b1 \<noteq> 0 then UTF16_be else UTF32_be)
             else if b1 = 0 then (if b2 \<noteq> 0 \<or> b3 \<noteq> 0 then UTF16_le else UTF32_le)
             else UTF8
         | [b0, b1] \<Rightarrow> if b0 = 0 then UTF16_be else if b1 = 0 then UTF16_le else UTF8
         | _ \<Rightarrow> UTF8))"

fun utf16_units :: "bool \<Rightarrow> nat list \<Rightarrow> exn + nat list" where
  "utf16_units le (a # b # rest) =
     (case utf16_units le rest of
        Inl e \<Rightarrow> Inl e
      | Inr us \<Rightarrow> Inr ((if le then a + 256 * b else 256 * a + b) # us))"
| "utf16_units le [a] = Inl UnicodeDecodeError"
| "utf16_units le [] = Inr []"

fun utf16_join :: "nat list \<Rightarrow> ustr" where
  "utf16_join (u # v # rest) =
     (if 0xD800 \<le> u \<and> u \<le> 0xDBFF \<and> 0xDC00 \<le> v \<and> v \<le> 0xDFFF
      then (0x10000 + (u - 0xD800) * 1024 + (v - 0xDC00)) # utf16_join rest
      else u # utf16_join (v # rest))"
| "utf16_join us = us"

definition utf16_decode :: "bool \<Rightarrow> nat list \<Rightarrow> exn + ustr" where
  "utf16_decode le bs = (case utf16_units le bs of Inl e \<Rightarrow> Inl e | Inr us \<Rightarrow> Inr (utf16_join us))"

fun utf32_decode :: "bool \<Rightarrow> nat list \<Rightarrow> exn + ustr" where
  "utf32_decode le (a # b # c # d # rest) =
     (let cp = (if le then a + 256 * b + 65536 * c + 16777216 * d
                else 16777216 * a + 65536 * b + 256 * c + d)
      in if 0x110000 \<le> cp then Inl UnicodeDecodeError
         else (case utf32_decode le rest of Inl e \<Rightarrow> Inl e | Inr cs \<Rightarrow> Inr (cp # cs)))"
| "utf32_decode le [] = Inr []"
| "utf32_decode le _ = Inl UnicodeDecodeError"

definition decode_with :: "encoding \<Rightarrow> nat list \<Rightarrow> exn + ustr" where
  "decode_with enc b =
     (case enc of
        UTF8 \<Rightarrow> utf8_decode_from Surrogatepass b
      | UTF8_sig \<Rightarrow>
          utf8_decode_from Surrogatepass (if startswith b [0xEF, 0xBB, 0xBF] then drop 3 b else b)
      | UTF16 \<Rightarrow>
          (if startswith b [0xFE, 0xFF] then utf16_decode False (drop 2 b)
           else if startswith b [0xFF, 0xFE] then utf16_decode True (drop 2 b)
           else utf16_decode True b)
      | UTF16_le \<Rightarrow> utf16_decode True b
      | UTF16_be \<Rightarrow> utf16_decode False b
      | UTF32 \<Rightarrow>
          (if startswith b [0x00, 0x00, 0xFE, 0xFF] then utf32_decode False (drop 4 b)
           else if startswith b [0xFF, 0xFE, 0x00, 0x00] then utf32_decode True (drop 4 b)
           else utf32_decode True b)
      | UTF32_le \<Rightarrow> utf32_decode True b
      | UTF32_be \<Rightarrow> utf32_decode False b)"

definition json_loads :: "byte list \<Rightarrow> exn + json" where
  "json_loads s =
     (let b = map unat s in
      case decode_with (detect_encoding b) b of
        Inl e \<Rightarrow> Inl e
      | Inr str \<Rightarrow> parse MValue [] (tokenize str))"

section \<open>Decoding Base64 (\<open>base64.urlsafe_b64decode\<close>)\<close>

fun index_of :: "'a \<Rightarrow> 'a list \<Rightarrow> nat option" where
  "index_of x [] = None"
| "index_of x (y # ys) = (if x = y then Some 0 else map_option Suc (index_of x ys))"

definition table_a2b_base64 :: "byte \<Rightarrow> nat option" where
  "table_a2b_base64 c = index_of c b64_table"

text \<open>
  \<open>binascii.a2b_base64\<close>, not strict: \<open>q\<close> is the position in the group of four digits,
  \<open>l\<close> the bits left over from the digit before and \<open>p\<close> the number of \<open>=\<close> seen since
  the last digit.  A character that is not a digit is skipped.  After two or three digits,
  \<open>=\<close> signs that complete the group end the decoding, whatever follows.
\<close>

fun a2b_base64 :: "nat \<Rightarrow> nat \<Rightarrow> nat \<Rightarrow> byte list \<Rightarrow> exn + byte list" where
  "a2b_base64 q l p [] = (if q = 0 then Inr [] else Inl BinasciiError)"
| "a2b_base64 q l p (c # cs) =
     (if c = b64_pad then
        (if 2 \<le> q then (if 4 \<le> q + (p + 1) then Inr [] else a2b_base64 q l (p + 1) cs)
         else a2b_base64 q l p cs)
      else
        (case table_a2b_base64 c of
           None \<Rightarrow> a2b_base64 q l p cs
         | Some v \<Rightarrow>
             if q = 0 then a2b_base64 1 v 0 cs
             else
               (let out = (if q = 1 then l * 4 + v div 16
                           else if q = 2 then l * 16 + v div 4 else l * 64 + v);
                    l' = (if q = 1 then v mod 16 else if q = 2 then v mod 4 else 0)
                in case a2b_base64 ((q + 1) mod 4) l' 0 cs of
                     Inl e \<Rightarrow> Inl e
                   | Inr bs \<Rightarrow> Inr (of_nat out # bs))))"

definition urlsafe_decode_translation :: "byte \<Rightarrow> byte" where
  "urlsafe_decode_translation c = (if c = 0x2D then 0x2B else if c = 0x5F then 0x2F else c)"

definition urlsafe_b64decode :: "ustr \<Rightarrow> exn + byte list" where
  "urlsafe_b64decode s =
     (if \<exists>c \<in> set s. 0x80 \<le> c then Inl ValueError
      else a2b_base64 0 0 0 (map (\<lambda>c. urlsafe_decode_translation (of_nat c)) s))"

section \<open>Parsing a query (\<open>urllib.parse\<close>)\<close>

text \<open>
  \<open>urlparse(url).query\<close> for a url that begins with \<open>/callback\<close>, the only ones the
  dispatcher passes on: such a url has no scheme and no network location.  Tabs and
  newlines are removed, the fragment is cut off at the first \<open>#\<close>, and the query is what
  follows the first \<open>?\<close>.
\<close>

definition urlparse_query :: "ustr \<Rightarrow> ustr" where
  "urlparse_query url =
     (let u = filter (\<lambda>c. c \<noteq> 0x09 \<and> c \<noteq> 0x0A \<and> c \<noteq> 0x0D) (dropWhile (\<lambda>c. c \<le> 0x20) url);
          before_fragment = takeWhile (\<lambda>c. c \<noteq> 0x23) u
      in drop 1 (dropWhile (\<lambda>c. c \<noteq> 0x3F) before_fragment))"

text \<open>\<open>s.split(sep)\<close> for a one-character separator.\<close>

fun split :: "'a \<Rightarrow> 'a list \<Rightarrow> 'a list list" where
  "split sep [] = [[]]"
| "split sep (c # cs) =
     (case split sep cs of
        [] \<Rightarrow> [[c]]
      | p # ps \<Rightarrow> if c = sep then [] # p # ps else (c # p) # ps)"

fun unquote_to_bytes :: "nat list \<Rightarrow> nat list" where
  "unquote_to_bytes [] = []"
| "unquote_to_bytes (c # cs) =
     (if c = 0x25 then
        (case cs of
           a # b # rest \<Rightarrow>
             (case (hexval a, hexval b) of
                (Some x, Some y) \<Rightarrow> (16 * x + y) # unquote_to_bytes rest
              | _ \<Rightarrow> c # unquote_to_bytes cs)
         | _ \<Rightarrow> c # unquote_to_bytes cs)
      else c # unquote_to_bytes cs)"

definition decode_replace :: "nat list \<Rightarrow> ustr" where
  "decode_replace bs = (case utf8_decode_from Replace bs of Inl e \<Rightarrow> [] | Inr s \<Rightarrow> s)"

text \<open>
  \<open>unquote\<close>: every maximal run of ASCII characters is unquoted to octets and decoded as
  UTF-8, malformed spans giving U+FFFD; the other characters stay.
\<close>

function unquote :: "ustr \<Rightarrow> ustr" where
  "unquote [] = []"
| "unquote (c # cs) =
     (if c < 0x80 then
        decode_replace (unquote_to_bytes (c # takeWhile (\<lambda>x. x < 0x80) cs))
          @ unquote (dropWhile (\<lambda>x. x < 0x80) cs)
      else c # unquote cs)"
  by pat_completeness auto
termination
  by (relation "measure length") (auto simp: length_dropWhile_le less_Suc_eq_le)

definition unquote_plus :: "ustr \<Rightarrow> ustr" where
  "unquote_plus s = unquote (map (\<lambda>c. if c = 0x2B then 0x20 else c) s)"

definition parse_qsl :: "ustr \<Rightarrow> (ustr \<times> ustr) list" where
  "parse_qsl qs =
     concat (map (\<lambda>name_value.
       (let name = takeWhile (\<lambda>c. c \<noteq> 0x3D) name_value;
            val = drop 1 (dropWhile (\<lambda>c. c \<noteq> 0x3D) name_value)
        in if val \<noteq> [] then [(unquote_plus name, unquote_plus val)] else []))
       (split 0x26 qs))"

fun dict_append :: "'k \<Rightarrow> 'v \<Rightarrow> ('k \<times> 'v list) list \<Rightarrow> ('k \<times> 'v list) list" where
  "dict_append k v [] = [(k, [v])]"
| "dict_append k v (p # ps) =
     (if fst p = k then (k, snd p @ [v]) # ps else p # dict_append k v ps)"

definition parse_qs :: "ustr \<Rightarrow> (ustr \<times> ustr list) list" where
  "parse_qs qs = foldl (\<lambda>d nv. dict_append (fst nv) (snd nv) d) [] (parse_qsl qs)"

section \<open>The demo server (\<open>complete_oauth_demo.py\<close>)\<close>

text \<open>
  The module's globals.  A handler reads them when it runs.
\<close>

record config =
  AUTH0_DOMAIN :: ustr
  CLIENT_ID :: ustr
  REDIRECT_URI :: ustr
  SCOPE :: ustr

definition module_globals :: config where
  "module_globals =
     \<lparr>AUTH0_DOMAIN = lit ''dev-a85i5cax3v3cy6l4.us.auth0.com'',
      CLIENT_ID = lit ''QhgXEVKKNmJzLwQxZeUuxtfqXlf619S5'',
      REDIRECT_URI = lit ''http://localhost:8091/callback'',
      SCOPE = lit ''openid profile email''\<rparr>"

text \<open>
  The attributes the handlers set on \<open>self.server\<close>; \<open>None\<close> is an attribute that is not
  there (\<open>hasattr\<close> is false, reading it raises \<open>AttributeError\<close>).
\<close>

record server =
  code_verifier :: "ustr option"
  access_token :: "json option"
  id_token :: "json option"

definition fresh_server :: server where
  "fresh_server = \<lparr>code_verifier = None, access_token = None, id_token = None\<rparr>"

text \<open>
  A call of \<open>urllib.request.urlopen\<close>: the request's url, body and headers, and the
  \<open>timeout\<close> argument (\<open>None\<close> when the call passes none).  The network answers a call by
  raising (an \<open>HTTPError\<close> with the status for any status that is not a success) or with
  the body of a successful response.
\<close>

record urlopen_call =
  full_url :: ustr
  body :: "byte list"
  header_items :: "(ustr \<times> ustr) list"
  timeout_arg :: "nat option"

datatype net_outcome = Raises exn | Responds "byte list"

text \<open>
  What a handler does to answer: its calls to the response interface of
  \<open>BaseHTTPRequestHandler\<close>, in order.  A page is written as one HTML text; the model keeps
  the values the text is built from.  What the library does with a call (the bytes on the
  wire, the log) and console output are not modelled, with one exception: \<open>send_error\<close>.
\<close>

datatype page =
    Home_page "json option"
  | Success_page json json json
  | Unauthorized_page
  | Protected_page json

datatype reply =
    Send_response nat
  | Send_header ustr ustr
  | End_headers
  | Write page
  | Send_error nat ustr

record effect =
  server_after :: server
  replies :: "reply list"
  calls :: "urlopen_call list"
  raised :: "exn option"

definition html_headers :: "nat \<Rightarrow> reply list" where
  "html_headers status =
     [Send_response status, Send_header (lit ''Content-type'') (lit ''text/html''), End_headers]"

text \<open>
  \<open>send_error(code, message)\<close> puts the message on the status line, and the library encodes
  that line as Latin-1, strictly: a message that holds a character beyond \<open>U+00FF\<close> raises
  \<open>UnicodeEncodeError\<close> before anything is sent.
\<close>

definition latin1 :: "ustr \<Rightarrow> bool" where
  "latin1 s = (\<forall>c \<in> set s. c < 0x100)"

definition send_error :: "server \<Rightarrow> nat \<Rightarrow> ustr \<Rightarrow> effect" where
  "send_error srv status message =
     (if latin1 message then
        \<lparr>server_after = srv, replies = [Send_error status message], calls = [], raised = None\<rparr>
      else
        \<lparr>server_after = srv, replies = [], calls = [], raised = Some UnicodeEncodeError\<rparr>)"

text \<open>
  \<open>v[:n]\<close> is defined on strings and lists.  An HTML text can be encoded unless a string
  put into it holds a surrogate.
\<close>

definition py_slice :: "nat \<Rightarrow> json \<Rightarrow> exn + json" where
  "py_slice n v =
     (case v of
        JStr s \<Rightarrow> Inr (JStr (take n s))
      | JArr xs \<Rightarrow> Inr (JArr (take n xs))
      | _ \<Rightarrow> Inl TypeError)"

definition encodable :: "json \<Rightarrow> bool" where
  "encodable v = (case v of JStr s \<Rightarrow> \<forall>c \<in> set s. \<not> (0xD800 \<le> c \<and> c \<le> 0xDFFF) | _ \<Rightarrow> True)"

subsection \<open>\<open>handle_home\<close>\<close>

definition handle_home :: "server \<Rightarrow> effect" where
  "handle_home srv =
     (case access_token srv of
        None \<Rightarrow>
          \<lparr>server_after = srv, replies = html_headers 200 @ [Write (Home_page None)],
           calls = [], raised = None\<rparr>
      | Some t \<Rightarrow>
          (case py_slice 50 t of
             Inl e \<Rightarrow>
               \<lparr>server_after = srv, replies = html_headers 200, calls = [], raised = Some e\<rparr>
           | Inr shown \<Rightarrow>
               if encodable shown then
                 \<lparr>server_after = srv, replies = html_headers 200 @ [Write (Home_page (Some shown))],
                  calls = [], raised = None\<rparr>
               else
                 \<lparr>server_after = srv, replies = html_headers 200, calls = [],
                  raised = Some UnicodeEncodeError\<rparr>))"

subsection \<open>\<open>handle_login\<close>\<close>

text \<open>
  The two PKCE values, from the octets \<open>secrets.token_bytes(32)\<close> returned (lines 82 to 85).
\<close>

definition new_code_verifier :: "byte list \<Rightarrow> exn + ustr" where
  "new_code_verifier rnd = seq (decode (urlsafe_b64encode rnd)) (\<lambda>s. Inr (rstrip 0x3D s))"

definition new_code_challenge :: "ustr \<Rightarrow> exn + ustr" where
  "new_code_challenge verifier =
     seq (encode verifier) (\<lambda>b.
     seq (decode (urlsafe_b64encode (sha256_digest b))) (\<lambda>s. Inr (rstrip 0x3D s)))"

definition login_params :: "config \<Rightarrow> ustr \<Rightarrow> ustr \<Rightarrow> (ustr \<times> ustr) list" where
  "login_params cfg code_challenge state =
     [(lit ''response_type'', lit ''code''),
      (lit ''client_id'', CLIENT_ID cfg),
      (lit ''redirect_uri'', REDIRECT_URI cfg),
      (lit ''scope'', SCOPE cfg),
      (lit ''code_challenge'', code_challenge),
      (lit ''code_challenge_method'', lit ''S256''),
      (lit ''state'', state)]"

definition crash :: "server \<Rightarrow> reply list \<Rightarrow> urlopen_call list \<Rightarrow> exn \<Rightarrow> effect" where
  "crash srv rs cs e = \<lparr>server_after = srv, replies = rs, calls = cs, raised = Some e\<rparr>"

text \<open>
  \<open>rnd\<close> is what \<open>secrets.token_bytes(32)\<close> returns at line 82 and \<open>rnd'\<close> what it returns
  inside \<open>secrets.token_urlsafe(32)\<close> at line 98.
\<close>

definition handle_login :: "config \<Rightarrow> server \<Rightarrow> byte list \<Rightarrow> byte list \<Rightarrow> effect" where
  "handle_login cfg srv rnd rnd' =
     (case new_code_verifier rnd of
        Inl e \<Rightarrow> crash srv [] [] e
      | Inr verifier \<Rightarrow>
          (case new_code_challenge verifier of
             Inl e \<Rightarrow> crash srv [] [] e
           | Inr challenge \<Rightarrow>
               (let srv' = srv\<lparr>code_verifier := Some verifier\<rparr> in
                case token_urlsafe rnd' of
                  Inl e \<Rightarrow> crash srv' [] [] e
                | Inr state \<Rightarrow>
                    (case urlencode (login_params cfg challenge state) of
                       Inl e \<Rightarrow> crash srv' [] [] e
                     | Inr q \<Rightarrow>
                         \<lparr>server_after = srv',
                          replies =
                            [Send_response 302,
                             Send_header (lit ''Location'')
                               (lit ''https://'' @ AUTH0_DOMAIN cfg @ lit ''/authorize?'' @ q),
                             End_headers],
                          calls = [], raised = None\<rparr>))))"

subsection \<open>\<open>parse_jwt_payload\<close>\<close>

text \<open>
  The argument is whatever the token response holds under \<open>id_token\<close>.  A value that is not
  a string is either false (line 280) or has no \<open>split\<close> (an \<open>AttributeError\<close> that line 295
  catches): both ways the result is \<open>{}\<close>.
\<close>

definition jwt_payload_body :: "ustr \<Rightarrow> exn + json" where
  "jwt_payload_body jwt_token =
     (let parts = split 0x2E jwt_token in
      if length parts \<noteq> 3 then Inr (JObj [])
      else
        (let payload = parts ! 1;
             padded = payload @ replicate (4 - length payload mod 4) 0x3D
         in seq (urlsafe_b64decode padded) json_loads))"

definition parse_jwt_payload :: "json \<Rightarrow> json" where
  "parse_jwt_payload jwt_token =
     (case jwt_token of
        JStr s \<Rightarrow>
          if s = [] then JObj []
          else (case jwt_payload_body s of Inl e \<Rightarrow> JObj [] | Inr v \<Rightarrow> v)
      | _ \<Rightarrow> JObj [])"

subsection \<open>\<open>exchange_code_for_tokens\<close>\<close>

definition token_request_data :: "config \<Rightarrow> ustr \<Rightarrow> ustr \<Rightarrow> (ustr \<times> ustr) list" where
  "token_request_data cfg auth_code verifier =
     [(lit ''grant_type'', lit ''authorization_code''),
      (lit ''client_id'', CLIENT_ID cfg),
      (lit ''code'', auth_code),
      (lit ''redirect_uri'', REDIRECT_URI cfg),
      (lit ''code_verifier'', verifier)]"

text \<open>
  The request of lines 267 to 273: \<open>urlopen(req)\<close> is called with the request alone, so
  without a timeout.
\<close>

definition token_request :: "config \<Rightarrow> byte list \<Rightarrow> urlopen_call" where
  "token_request cfg form =
     \<lparr>full_url = lit ''https://'' @ AUTH0_DOMAIN cfg @ lit ''/oauth/token'',
      body = form,
      header_items = [(lit ''Content-Type'', lit ''application/x-www-form-urlencoded'')],
      timeout_arg = None\<rparr>"

text \<open>
  The result is the list of \<open>urlopen\<close> calls made (none or one) and either the exception
  raised or the \<open>dict\<close> returned.  Line 275 calls \<open>tokens.keys()\<close>, so a response that is not
  a JSON object raises \<open>AttributeError\<close>.
\<close>

definition exchange_code_for_tokens ::
  "config \<Rightarrow> (urlopen_call \<Rightarrow> net_outcome) \<Rightarrow> server \<Rightarrow> ustr
     \<Rightarrow> urlopen_call list \<times> (exn + (ustr \<times> json) list)" where
  "exchange_code_for_tokens cfg net srv auth_code =
     (case code_verifier srv of
        None \<Rightarrow> ([], Inl AttributeError)
      | Some verifier \<Rightarrow>
          (case seq (urlencode (token_request_data cfg auth_code verifier)) encode of
             Inl e \<Rightarrow> ([], Inl e)
           | Inr form \<Rightarrow>
               (let req = token_request cfg form
                in ([req],
                    case net req of
                      Raises e \<Rightarrow> Inl e
                    | Responds b \<Rightarrow>
                        seq (decode b) (\<lambda>text.
                        seq (json_loads_str text) (\<lambda>tokens.
                          case tokens of JObj d \<Rightarrow> Inr d | _ \<Rightarrow> Inl AttributeError))))))"

subsection \<open>\<open>handle_callback\<close>\<close>

text \<open>
  The success page shows the first 100 characters of the access token and of the ID token
  (\<open>Not provided\<close> when there is none) and the claims; building or encoding it can fail
  after the 200 status has gone out.
\<close>

definition render_success :: "(ustr \<times> json) list \<Rightarrow> json \<Rightarrow> json \<Rightarrow> exn + page" where
  "render_success tokens token user_info =
     seq (py_slice 100 token) (\<lambda>a.
     seq (py_slice 100 (case dict_get tokens (lit ''id_token'') of
                          None \<Rightarrow> JStr (lit ''Not provided'') | Some v \<Rightarrow> v)) (\<lambda>i.
       if encodable a \<and> encodable i then Inr (Success_page a i user_info)
       else Inl UnicodeEncodeError))"

text \<open>
  The message of the 500 reply ends with the text of the exception, which the model leaves
  out.  That text is ASCII for the exceptions of the interpreter and of the libraries, and
  the reason phrase of the response (read as Latin-1) for an \<open>HTTPError\<close>, so the status
  line of this reply can always be encoded.
\<close>

definition exchange_failed :: "server \<Rightarrow> reply list \<Rightarrow> urlopen_call list \<Rightarrow> effect" where
  "exchange_failed srv rs cs =
     \<lparr>server_after = srv, replies = rs @ [Send_error 500 (lit ''Token exchange failed: '')],
      calls = cs, raised = None\<rparr>"

definition handle_callback ::
  "config \<Rightarrow> (urlopen_call \<Rightarrow> net_outcome) \<Rightarrow> server \<Rightarrow> ustr \<Rightarrow> effect" where
  "handle_callback cfg net srv path =
     (let params = parse_qs (urlparse_query path) in
      case dict_get params (lit ''error'') of
        Some errs \<Rightarrow>
          (case errs of
             [] \<Rightarrow> crash srv [] [] IndexError
           | err # _ \<Rightarrow> send_error srv 400 (lit ''OAuth Error: '' @ err))
      | None \<Rightarrow>
          (case dict_get params (lit ''code'') of
             None \<Rightarrow> send_error srv 400 (lit ''Missing authorization code'')
           | Some [] \<Rightarrow> crash srv [] [] IndexError
           | Some (auth_code # _) \<Rightarrow>
               (case exchange_code_for_tokens cfg net srv auth_code of
                  (cs, Inl e) \<Rightarrow> exchange_failed srv [] cs
                | (cs, Inr tokens) \<Rightarrow>
                    (case dict_get tokens (lit ''access_token'') of
                       None \<Rightarrow> exchange_failed srv [] cs
                     | Some token \<Rightarrow>
                         (let idt = (case dict_get tokens (lit ''id_token'') of
                                       None \<Rightarrow> JStr [] | Some v \<Rightarrow> v);
                              srv' = srv\<lparr>access_token := Some token, id_token := Some idt\<rparr>;
                              user_info = parse_jwt_payload idt
                          in case render_success tokens token user_info of
                               Inl e \<Rightarrow> exchange_failed srv' (html_headers 200) cs
                             | Inr pg \<Rightarrow>
                                 \<lparr>server_after = srv',
                                  replies = html_headers 200 @ [Write pg],
                                  calls = cs, raised = None\<rparr>)))))"

subsection \<open>\<open>handle_protected_api\<close>\<close>

definition header_get :: "(ustr \<times> ustr) list \<Rightarrow> ustr \<Rightarrow> ustr \<Rightarrow> ustr" where
  "header_get hs k d = (case map_of hs k of None \<Rightarrow> d | Some v \<Rightarrow> v)"

definition handle_protected_api :: "server \<Rightarrow> (ustr \<times> ustr) list \<Rightarrow> effect" where
  "handle_protected_api srv hs =
     (let auth_header = header_get hs (lit ''Authorization'') [] in
      case access_token srv of
        None \<Rightarrow>
          \<lparr>server_after = srv, replies = html_headers 401 @ [Write Unauthorized_page],
           calls = [], raised = None\<rparr>
      | Some token \<Rightarrow>
          if encodable token then
            \<lparr>server_after = srv, replies = html_headers 200 @ [Write (Protected_page token)],
             calls = [], raised = None\<rparr>
          else crash srv (html_headers 200) [] UnicodeEncodeError)"

subsection \<open>\<open>do_GET\<close> and the serving loop\<close>

text \<open>
  A request is its path and headers.  What the outside world contributes while one request
  is served: the answer of the network to a \<open>urlopen\<close> call and the octets of the two calls
  of the random source.
\<close>

record request =
  path :: ustr
  req_headers :: "(ustr \<times> ustr) list"

record world =
  network :: "urlopen_call \<Rightarrow> net_outcome"
  token_bytes :: "byte list"
  urlsafe_bytes :: "byte list"

definition do_GET :: "config \<Rightarrow> world \<Rightarrow> server \<Rightarrow> request \<Rightarrow> effect" where
  "do_GET cfg w srv req =
     (if startswith (path req) (lit ''/callback'') then handle_callback cfg (network w) srv (path req)
      else if path req = lit ''/'' then handle_home srv
      else if path req = lit ''/login'' then handle_login cfg srv (token_bytes w) (urlsafe_bytes w)
      else if startswith (path req) (lit ''/api/protected'') then
        handle_protected_api srv (req_headers req)
      else \<lparr>server_after = srv, replies = [Send_error 404 []], calls = [], raised = None\<rparr>)"

text \<open>
  The server handles one request after the other; an exception that escapes a handler
  ends that request only.  \<open>serve\<close> gives the effects of the requests in order.
\<close>

fun serve :: "config \<Rightarrow> server \<Rightarrow> (world \<times> request) list \<Rightarrow> effect list" where
  "serve cfg srv [] = []"
| "serve cfg srv ((w, req) # rest) =
     (let eff = do_GET cfg w srv req in eff # serve cfg (server_after eff) rest)"

definition final_server :: "server \<Rightarrow> effect list \<Rightarrow> server" where
  "final_server srv effs = (if effs = [] then srv else server_after (last effs))"

definition all_calls :: "effect list \<Rightarrow> urlopen_call list" where
  "all_calls effs = concat (map calls effs)"

section \<open>Reference definitions\<close>

text \<open>The digits of the encoder of \<open>binascii\<close>, without the table and the padding.\<close>

fun b64_digits :: "nat list \<Rightarrow> nat list" where
  "b64_digits (a # b # c # rest) =
     [a div 4, (a mod 4) * 16 + b div 16, (b mod 16) * 4 + c div 64, c mod 64] @ b64_digits rest"
| "b64_digits [a, b] = [a div 4, (a mod 4) * 16 + b div 16, (b mod 16) * 4]"
| "b64_digits [a] = [a div 4, (a mod 4) * 16]"
| "b64_digits [] = []"

text \<open>
  Base64url without padding, as RFC 4648 defines it: the bits of the octets, most
  significant first, in groups of six (the last group filled with zero bits), each group
  the index of a character in the URL-safe alphabet.  No \<open>=\<close> is added.
\<close>

fun bitsr :: "nat \<Rightarrow> nat \<Rightarrow> bool list" where
  "bitsr 0 n = []"
| "bitsr (Suc k) n = odd (n div 2 ^ k) # bitsr k n"

fun bits_val :: "bool list \<Rightarrow> nat" where
  "bits_val [] = 0"
| "bits_val (b # bs) = (if b then 2 ^ length bs else 0) + bits_val bs"

fun group6 :: "bool list \<Rightarrow> bool list list" where
  "group6 (a # b # c # d # e # f # rest) = [a, b, c, d, e, f] # group6 rest"
| "group6 [] = []"
| "group6 xs = [xs @ replicate (6 - length xs) False]"

definition base64url_alphabet :: string where
  "base64url_alphabet = ''ABCDEFGHIJKLMNOPQRSTUVWXYZabcdefghijklmnopqrstuvwxyz0123456789-_''"

definition base64url_nopad :: "byte list \<Rightarrow> ustr" where
  "base64url_nopad bs =
     map (\<lambda>g. of_char (base64url_alphabet ! bits_val g))
       (group6 (concat (map (\<lambda>b. bitsr 8 (unat b)) bs)))"

definition unreserved :: "nat set" where
  "unreserved = set (lit ''ABCDEFGHIJKLMNOPQRSTUVWXYZabcdefghijklmnopqrstuvwxyz0123456789-._~'')"

text \<open>The S256 transformation of RFC 7636: the challenge that belongs to a verifier.\<close>

definition S256 :: "ustr \<Rightarrow> ustr" where
  "S256 verifier = base64url_nopad (sha256_digest (map of_nat verifier))"

text \<open>
  A token exchange succeeded: the network answered the call with a JSON object that holds an
  \<open>access_token\<close>.
\<close>

definition answered_with_token :: "(urlopen_call \<Rightarrow> net_outcome) \<Rightarrow> urlopen_call \<Rightarrow> bool" where
  "answered_with_token nw c =
     (case nw c of
        Raises e \<Rightarrow> False
      | Responds b \<Rightarrow>
          (case seq (decode b) json_loads_str of
             Inr (JObj d) \<Rightarrow> dict_get d (lit ''access_token'') \<noteq> None
           | _ \<Rightarrow> False))"

text \<open>
  A scenario for concrete runs: the random source returns zero octets, the token endpoint
  answers every call with an access token; a login request and a callback request that
  carries a code and no \<open>state\<close>.
\<close>

definition demo_world :: world where
  "demo_world =
     \<lparr>network = (\<lambda>c. Responds (blit ''{\"access_token\":\"AT1\"}'')),
      token_bytes = replicate 32 0, urlsafe_bytes = replicate 32 0\<rparr>"

definition login_request :: request where
  "login_request = \<lparr>path = lit ''/login'', req_headers = []\<rparr>"

definition callback_request :: request where
  "callback_request = \<lparr>path = lit ''/callback?code=abc'', req_headers = []\<rparr>"






section \<open>Lemmas: Base64 and the reference encoding\<close>

lemma bits_val_append: "bits_val (xs @ ys) = bits_val xs * 2 ^ length ys + bits_val ys"
  by (induction xs) (auto simp: power_add algebra_simps)

lemma length_bitsr [simp]: "length (bitsr k n) = k"
  by (induction k) auto

lemma bits_val_bitsr: "bits_val (bitsr k n) = n mod 2 ^ k"
proof (induction k)
  case 0 then show ?case by simp
next
  case (Suc k)
  have "n mod (2 * 2 ^ k) = (n div 2 ^ k mod 2) * 2 ^ k + n mod 2 ^ k"
    by (metis mod_mult2_eq mult.commute)
  then show ?case using Suc by (simp add: odd_iff_mod_2_eq_one)
qed

lemma div_div_comm: "(n::nat) div a div b = n div b div a"
  by (metis div_mult2_eq mult.commute)

lemma div_pow_add: "(n::nat) div 2 ^ (j + k) = n div 2 ^ k div 2 ^ j"
  by (simp add: power_add div_mult2_eq) (rule div_div_comm)

lemma bitsr_add: "bitsr (j + k) n = bitsr j (n div 2 ^ k) @ bitsr k n"
  by (induction j) (simp_all add: div_pow_add)

lemma len6: "length xs = 6 \<Longrightarrow> \<exists>a b c d e f. xs = [a, b, c, d, e, f]"
  by (auto simp: numeral_eq_Suc length_Suc_conv)

lemma group6_app: "length xs = 6 \<Longrightarrow> group6 (xs @ ys) = xs # group6 ys"
  using len6 [of xs] by auto

lemma group6_app2: "length xs + length ys = 6 \<Longrightarrow> group6 (xs @ ys @ zs) = (xs @ ys) # group6 zs"
  using group6_app [of "xs @ ys" zs] by simp

lemma bitsr8_62: "bitsr 8 n = bitsr 6 (n div 4) @ bitsr 2 n"
  using bitsr_add [of 6 2 n] by simp
lemma bitsr8_44: "bitsr 8 n = bitsr 4 (n div 16) @ bitsr 4 n"
  using bitsr_add [of 4 4 n] by simp
lemma bitsr8_26: "bitsr 8 n = bitsr 2 (n div 64) @ bitsr 6 n"
  using bitsr_add [of 2 6 n] by simp

lemma group6_short: "xs \<noteq> [] \<Longrightarrow> length xs < 6 \<Longrightarrow> group6 xs = [xs @ replicate (6 - length xs) False]"
  by (cases xs rule: group6.cases) auto

lemma bits_val_False: "bits_val (replicate k False) = 0"
  by (induction k) auto

lemma digits3:
  assumes "a < 256" "b < 256" "c < 256"
  shows "map bits_val (group6 (bitsr 8 a @ bitsr 8 b @ bitsr 8 c @ rest)) =
         [a div 4, (a mod 4) * 16 + b div 16, (b mod 16) * 4 + c div 64, c mod 64]
           @ map bits_val (group6 rest)"
proof -
  have m: "a div 4 mod 64 = a div 4" "b div 16 mod 16 = b div 16" "c div 64 mod 4 = c div 64"
    using assms by auto
  have "group6 (bitsr 8 a @ bitsr 8 b @ bitsr 8 c @ rest) =
        group6 (bitsr 6 (a div 4) @ bitsr 2 a @ bitsr 4 (b div 16) @ bitsr 4 b @ bitsr 2 (c div 64) @ bitsr 6 c @ rest)"
    by (simp only: bitsr8_62 [of a] bitsr8_44 [of b] bitsr8_26 [of c] append_assoc)
  also have "\<dots> = bitsr 6 (a div 4) # (bitsr 2 a @ bitsr 4 (b div 16)) # (bitsr 4 b @ bitsr 2 (c div 64))
                   # bitsr 6 c # group6 rest"
    by (simp add: group6_app group6_app2 del: bitsr.simps group6.simps)
  finally show ?thesis
    by (simp add: bits_val_append bits_val_bitsr m del: bitsr.simps)
qed



lemma bitsr_ne: "0 < k \<Longrightarrow> bitsr k n \<noteq> []"
  using length_bitsr [of k n] by (cases "bitsr k n") simp_all

lemma digits2:
  assumes "a < 256" "b < 256"
  shows "map bits_val (group6 (bitsr 8 a @ bitsr 8 b)) =
         [a div 4, (a mod 4) * 16 + b div 16, (b mod 16) * 4]"
proof -
  have m: "a div 4 mod 64 = a div 4" "b div 16 mod 16 = b div 16"
    using assms by auto
  have "group6 (bitsr 8 a @ bitsr 8 b) =
        group6 (bitsr 6 (a div 4) @ bitsr 2 a @ bitsr 4 (b div 16) @ bitsr 4 b)"
    by (simp only: bitsr8_62 [of a] bitsr8_44 [of b] append_assoc)
  also have "\<dots> = bitsr 6 (a div 4) # (bitsr 2 a @ bitsr 4 (b div 16)) # group6 (bitsr 4 b)"
    by (simp add: group6_app group6_app2 del: bitsr.simps group6.simps)
  also have "group6 (bitsr 4 b) = [bitsr 4 b @ replicate 2 False]"
    using group6_short [OF bitsr_ne, of 4 b] by simp
  finally show ?thesis
    by (simp add: bits_val_append bits_val_bitsr bits_val_False m del: bitsr.simps replicate.simps)
qed

lemma digits1:
  assumes "a < 256"
  shows "map bits_val (group6 (bitsr 8 a)) = [a div 4, (a mod 4) * 16]"
proof -
  have m: "a div 4 mod 64 = a div 4"
    using assms by auto
  have "group6 (bitsr 8 a) = group6 (bitsr 6 (a div 4) @ bitsr 2 a)"
    by (simp only: bitsr8_62 [of a])
  also have "\<dots> = bitsr 6 (a div 4) # group6 (bitsr 2 a)"
    by (simp add: group6_app del: bitsr.simps group6.simps)
  also have "group6 (bitsr 2 a) = [bitsr 2 a @ replicate 4 False]"
    using group6_short [OF bitsr_ne, of 2 a] by simp
  finally show ?thesis
    by (simp add: bits_val_append bits_val_bitsr bits_val_False m del: bitsr.simps replicate.simps)
qed

lemma digits_spec:
  "\<forall>n \<in> set ns. n < 256 \<Longrightarrow> map bits_val (group6 (concat (map (bitsr 8) ns))) = b64_digits ns"
proof (induction ns rule: b64_digits.induct)
  case (1 a b c rest)
  then show ?case using digits3 [of a b c "concat (map (bitsr 8) rest)"] by (simp del: bitsr.simps)
next
  case (2 a b)
  then show ?case using digits2 [of a b] by (simp del: bitsr.simps)
next
  case (3 a)
  then show ?case using digits1 [of a] by (simp del: bitsr.simps)
next
  case 4
  then show ?case by simp
qed

lemma b64_table_len: "length b64_table = 64"
  by (simp add: b64_table_def blit_def)

lemma utf8_ascii: "\<forall>b \<in> set bs. b < 0x80 \<Longrightarrow> utf8_decode_from h bs = Inr bs"
  by (induction bs) (auto)

lemma encode_ascii: "\<forall>c \<in> set s. c < 0x80 \<Longrightarrow> encode s = Inr (map of_nat s)"
  by (induction s) (auto simp: utf8_encode_cp_def)

lemma mod3_Suc3: "Suc (Suc (Suc n)) mod 3 = n mod 3"
  by presburger

lemma b2a_digits:
  "b2a_base64 ns = map (\<lambda>i. b64_table ! i) (b64_digits ns) @ replicate ((3 - length ns mod 3) mod 3) b64_pad"
proof (induction ns rule: b2a_base64.induct)
  case (1 a b c rest)
  then show ?case by (simp add: mod3_Suc3)
next
  case (2 a b)
  have "length [a, b] mod 3 = 2" by simp
  then show ?case by (simp add: numeral_2_eq_2 del: length_Cons)
next
  case (3 a)
  have "length [a] mod 3 = 1" by simp
  then show ?case by (simp add: numeral_2_eq_2 del: length_Cons) 
next
  case 4
  then show ?case by simp
qed

lemma digits_lt64: "\<forall>n \<in> set ns. n < 256 \<Longrightarrow> \<forall>i \<in> set (b64_digits ns). i < 64"
  by (induction ns rule: b64_digits.induct) auto

lemma length_digits: "length (b64_digits ns) = (4 * length ns + 2) div 3"
  by (induction ns rule: b64_digits.induct) auto

lemma urlsafe_table:
  "map (\<lambda>c. unat (urlsafe_encode_translation c)) b64_table = map of_char base64url_alphabet"
  by (simp add: b64_table_def blit_def base64url_alphabet_def urlsafe_encode_translation_def)

lemma alphabet_len: "length base64url_alphabet = 64"
  by (simp add: base64url_alphabet_def)

lemma urlsafe_digit:
  assumes "i < 64"
  shows "unat (urlsafe_encode_translation (b64_table ! i)) = of_char (base64url_alphabet ! i)"
proof -
  have "map (\<lambda>c. unat (urlsafe_encode_translation c)) b64_table ! i = map of_char base64url_alphabet ! i"
    by (simp only: urlsafe_table)
  then show ?thesis using assms by (simp add: b64_table_len alphabet_len)
qed

lemma alphabet_unreserved: "\<forall>c \<in> set base64url_alphabet. (of_char c :: nat) \<in> unreserved \<and> (of_char c :: nat) < 0x80 \<and> (of_char c :: nat) \<noteq> 0x3D"
  by (simp add: base64url_alphabet_def unreserved_def lit_def)

lemma sha256_length: "length (sha256_digest m) = 32"
  by (simp add: sha256_digest_def word_bytes_def split: prod.splits)

lemma dropWhile_replicate: "dropWhile (\<lambda>x. x = c) (replicate k c @ ys) = dropWhile (\<lambda>x. x = c) ys"
  by (induction k) auto

lemma dropWhile_none: "\<forall>x \<in> set ys. \<not> P x \<Longrightarrow> dropWhile P ys = ys"
  by (cases ys) auto

lemma rstrip_pad: "\<forall>x \<in> set xs. x \<noteq> c \<Longrightarrow> rstrip c (xs @ replicate k c) = xs"
  by (simp add: rstrip_def dropWhile_replicate dropWhile_none)

lemma nopad_digits:
  "base64url_nopad bs = map (\<lambda>i. of_char (base64url_alphabet ! i)) (b64_digits (map unat bs))"
proof -
  have "\<forall>n \<in> set (map unat bs). n < 256"
    using unsigned_less [where 'b = 8] by fastforce
  from digits_spec [OF this]
  have e: "map bits_val (group6 (concat (map (bitsr 8) (map unat bs)))) = b64_digits (map unat bs)" .
  have "base64url_nopad bs =
        map (\<lambda>i. of_char (base64url_alphabet ! i))
          (map bits_val (group6 (concat (map (bitsr 8) (map unat bs)))))"
    by (simp add: base64url_nopad_def comp_def)
  then show ?thesis by (simp only: e)
qed

lemma digits_bytes_lt64: "\<forall>i \<in> set (b64_digits (map unat (bs :: byte list))). i < 64"
proof -
  have "\<forall>n \<in> set (map unat bs). n < 256"
    using unsigned_less [where 'b = 8] by fastforce
  then show ?thesis by (rule digits_lt64)
qed

lemma nopad_chars:
  "\<forall>c \<in> set (base64url_nopad bs). c \<in> unreserved \<and> c < 0x80 \<and> c \<noteq> 0x3D"
  using digits_bytes_lt64 [of bs] alphabet_unreserved
  by (auto simp: nopad_digits alphabet_len)

lemma length_nopad: "length (base64url_nopad bs) = (4 * length bs + 2) div 3"
  by (simp add: nopad_digits length_digits)

lemma urlsafe_encode_eq:
  "map unat (urlsafe_b64encode bs) =
     base64url_nopad bs @ replicate ((3 - length bs mod 3) mod 3) 0x3D"
proof -
  have "map (\<lambda>i. unat (urlsafe_encode_translation (b64_table ! i))) (b64_digits (map unat bs))
        = map (\<lambda>i. of_char (base64url_alphabet ! i)) (b64_digits (map unat bs))"
    using digits_bytes_lt64 [of bs] by (auto simp: urlsafe_digit)
  then show ?thesis
    by (simp add: urlsafe_b64encode_def b64encode_def b2a_digits nopad_digits comp_def
        urlsafe_encode_translation_def b64_pad_def)
qed

lemma decode_ascii: "\<forall>b \<in> set bs. unat b < 0x80 \<Longrightarrow> decode bs = Inr (map unat bs)"
  by (simp add: decode_def utf8_decode_def utf8_ascii)

lemma urlsafe_ascii: "\<forall>b \<in> set (urlsafe_b64encode bs). unat b < 0x80"
proof -
  have "\<forall>n \<in> set (map unat (urlsafe_b64encode bs)). n < 0x80"
    unfolding urlsafe_encode_eq using nopad_chars [of bs] by auto
  then show ?thesis by simp
qed

lemma new_code_verifier_eq: "new_code_verifier rnd = Inr (base64url_nopad rnd)"
  using nopad_chars [of rnd]
  by (simp add: new_code_verifier_def seq_def decode_ascii [OF urlsafe_ascii] urlsafe_encode_eq rstrip_pad)

lemma new_code_challenge_eq:
  assumes "\<forall>c \<in> set v. c < 0x80"
  shows "new_code_challenge v = Inr (base64url_nopad (sha256_digest (map of_nat v)))"
  using nopad_chars [of "sha256_digest (map of_nat v)"]
  by (simp add: new_code_challenge_def seq_def encode_ascii [OF assms] decode_ascii [OF urlsafe_ascii]
      urlsafe_encode_eq rstrip_pad)

lemma dropWhile_unat:
  "map unat (dropWhile (\<lambda>x. x = b64_pad) bs) = dropWhile (\<lambda>n. n = 0x3D) (map unat bs)"
  by (induction bs) (auto simp: b64_pad_def word_unat_eq_iff)

lemma rstrip_bytes:
  "map unat (rstrip b64_pad bs) = rstrip 0x3D (map unat bs)"
  by (simp add: rstrip_def rev_map dropWhile_unat [symmetric])

lemma token_urlsafe_eq: "token_urlsafe tok = Inr (base64url_nopad tok)"
proof -
  have "\<forall>b \<in> set (rstrip b64_pad (urlsafe_b64encode tok)). unat b < 0x80"
    using urlsafe_ascii [of tok] set_dropWhileD by (fastforce simp: rstrip_def)
  then show ?thesis
    using nopad_chars [of tok]
    by (simp add: token_urlsafe_def decode_ascii rstrip_bytes urlsafe_encode_eq rstrip_pad)
qed

section \<open>Lemmas: building a query\<close>

lemma unat_byte_lt: "unat (b :: byte) < 256"
proof -
  have "unat b < 2 ^ LENGTH(8)" by (rule unsigned_less)
  then show ?thesis by simp
qed

lemma quote_plus_ascii:
  "\<forall>c \<in> set s. c < 0x80 \<Longrightarrow> quote_plus s = Inr (concat (map quote_byte (map of_nat s)))"
  by (simp add: quote_plus_def encode_ascii)

lemma quote_byte_ascii: "\<forall>c \<in> set (quote_byte b). c < 0x80"
proof -
  have "unat b < 0x80" if "b \<in> set always_safe"
    using that by (auto simp: always_safe_def blit_def)
  moreover have "hexdig n < 0x80" if "n < 16" for n
    using that by (simp add: hexdig_def)
  moreover have "unat b div 16 < 16" "unat b mod 16 < 16"
    using unat_byte_lt [of b] by simp_all
  ultimately show ?thesis by (auto simp: quote_byte_def)
qed

lemma quote_plus_result_ascii: "quote_plus s = Inr q \<Longrightarrow> \<forall>c \<in> set q. c < 0x80"
  using quote_byte_ascii by (auto simp: quote_plus_def split: sum.splits)

lemma join_ascii: "(\<forall>x \<in> set xs. \<forall>c \<in> set x. c < (0x80::nat)) \<Longrightarrow> \<forall>c \<in> set (join (lit ''&'') xs). c < 0x80"
  by (induction "lit ''&''" xs rule: join.induct) (auto simp: lit_def)

lemma urlencode_pairs_ascii:
  "urlencode_pairs kvs = Inr l \<Longrightarrow> \<forall>x \<in> set l. \<forall>c \<in> set x. c < 0x80"
proof (induction kvs arbitrary: l)
  case Nil then show ?case by simp
next
  case (Cons kv kvs)
  obtain k v where kv: "kv = (k, v)" by (cases kv)
  from Cons.prems kv obtain k' v' rest where
    r: "quote_plus k = Inr k'" "quote_plus v = Inr v'" "urlencode_pairs kvs = Inr rest"
       "l = (k' @ lit ''='' @ v') # rest"
    by (auto simp: seq_def split: sum.splits)
  show ?case
    using Cons.IH [OF r(3)] quote_plus_result_ascii [OF r(1)] quote_plus_result_ascii [OF r(2)] r(4)
    by (auto simp: lit_def)
qed

lemma urlencode_form:
  "urlencode kvs = Inr q \<Longrightarrow> seq (urlencode kvs) encode = Inr (map of_nat q)"
proof -
  assume a: "urlencode kvs = Inr q"
  then obtain l where l: "urlencode_pairs kvs = Inr l" "q = join (lit ''&'') l"
    by (auto simp: urlencode_def seq_def split: sum.splits)
  have "\<forall>c \<in> set q. c < 0x80"
    using urlencode_pairs_ascii [OF l(1)] join_ascii l(2) by blast
  then show ?thesis using a by (simp add: seq_def encode_ascii)
qed

lemma urlencode_pairs_ok:
  "\<forall>kv \<in> set kvs. (\<forall>c \<in> set (fst kv). c < 0x80) \<and> (\<forall>c \<in> set (snd kv). c < 0x80)
   \<Longrightarrow> \<exists>l. urlencode_pairs kvs = Inr l"
proof (induction kvs)
  case Nil then show ?case by simp
next
  case (Cons kv kvs)
  obtain k v where kv: "kv = (k, v)" by (cases kv)
  from Cons obtain l where "urlencode_pairs kvs = Inr l" by auto
  then show ?case using Cons.prems kv by (simp add: seq_def quote_plus_ascii)
qed

lemma urlencode_ok:
  "\<forall>kv \<in> set kvs. (\<forall>c \<in> set (fst kv). c < 0x80) \<and> (\<forall>c \<in> set (snd kv). c < 0x80)
   \<Longrightarrow> \<exists>q. urlencode kvs = Inr q"
  using urlencode_pairs_ok [of kvs] by (auto simp: urlencode_def seq_def)

lemma lit_ascii: "\<forall>c \<in> set s. (of_char c :: nat) < 0x80 \<Longrightarrow> \<forall>c \<in> set (lit s). c < 0x80"
  by (simp add: lit_def)

lemma globals_ascii:
  "\<forall>c \<in> set (CLIENT_ID module_globals). c < 0x80"
  "\<forall>c \<in> set (REDIRECT_URI module_globals). c < 0x80"
  "\<forall>c \<in> set (SCOPE module_globals). c < 0x80"
  "\<forall>c \<in> set (AUTH0_DOMAIN module_globals). c < 0x80"
  by (simp_all add: module_globals_def lit_def)

section \<open>Lemmas: the callback handler\<close>

lemma dict_append_nonempty:
  "\<forall>kv \<in> set d. snd kv \<noteq> [] \<Longrightarrow> \<forall>kv \<in> set (dict_append k v d). snd kv \<noteq> []"
  by (induction d) auto

lemma foldl_dict_append_nonempty:
  "\<forall>kv \<in> set d. snd kv \<noteq> [] \<Longrightarrow>
   \<forall>kv \<in> set (foldl (\<lambda>d nv. dict_append (fst nv) (snd nv) d) d nvs). snd kv \<noteq> []"
proof (induction nvs arbitrary: d)
  case Nil then show ?case by simp
next
  case (Cons nv nvs)
  show ?case
    using Cons.IH [OF dict_append_nonempty [OF Cons.prems, of "fst nv" "snd nv"]] by simp
qed

lemma parse_qs_nonempty: "dict_get (parse_qs q) k = Some vs \<Longrightarrow> vs \<noteq> []"
proof -
  assume "dict_get (parse_qs q) k = Some vs"
  then have "(k, vs) \<in> set (parse_qs q)"
    by (simp add: dict_get_def map_of_SomeD)
  moreover have "\<forall>kv \<in> set (parse_qs q). snd kv \<noteq> []"
    unfolding parse_qs_def by (rule foldl_dict_append_nonempty) simp
  ultimately show ?thesis by fastforce
qed

lemma exchange_calls:
  "fst (exchange_code_for_tokens cfg nw srv code) =
     (case code_verifier srv of
        None \<Rightarrow> []
      | Some v \<Rightarrow>
          (case seq (urlencode (token_request_data cfg code v)) encode of
             Inl e \<Rightarrow> []
           | Inr form \<Rightarrow> [token_request cfg form]))"
  by (simp add: exchange_code_for_tokens_def Let_def split: option.splits sum.splits)

lemma send_error_fields [simp]:
  "calls (send_error srv status message) = []"
  "server_after (send_error srv status message) = srv"
  by (simp_all add: send_error_def)

lemma latin1_ascii: "\<forall>c \<in> set s. c < 0x80 \<Longrightarrow> latin1 s"
  by (auto simp: latin1_def)


lemma callback_error:
  assumes "dict_get (parse_qs (urlparse_query p)) (lit ''error'') = Some errs"
  shows "handle_callback cfg nw srv p = send_error srv 400 (lit ''OAuth Error: '' @ hd errs)"
  using assms parse_qs_nonempty [OF assms]
  by (cases errs) (simp_all add: handle_callback_def Let_def)

lemma callback_no_code:
  assumes "dict_get (parse_qs (urlparse_query p)) (lit ''error'') = None"
      and "dict_get (parse_qs (urlparse_query p)) (lit ''code'') = None"
  shows "handle_callback cfg nw srv p =
           \<lparr>server_after = srv, replies = [Send_error 400 (lit ''Missing authorization code'')],
            calls = [], raised = None\<rparr>"
  using assms by (simp add: handle_callback_def Let_def send_error_def latin1_def lit_def)

text \<open>What the callback does once it has a code: a function of the code alone.\<close>

lemma callback_code:
  assumes "dict_get (parse_qs (urlparse_query p)) (lit ''error'') = None"
      and "dict_get (parse_qs (urlparse_query p)) (lit ''code'') = Some (code # others)"
  shows "handle_callback cfg nw srv p =
           (case exchange_code_for_tokens cfg nw srv code of
              (cs, Inl e) \<Rightarrow> exchange_failed srv [] cs
            | (cs, Inr tokens) \<Rightarrow>
                (case dict_get tokens (lit ''access_token'') of
                   None \<Rightarrow> exchange_failed srv [] cs
                 | Some token \<Rightarrow>
                     (let idt = (case dict_get tokens (lit ''id_token'') of
                                   None \<Rightarrow> JStr [] | Some v \<Rightarrow> v);
                          srv' = srv\<lparr>access_token := Some token, id_token := Some idt\<rparr>;
                          user_info = parse_jwt_payload idt
                      in case render_success tokens token user_info of
                           Inl e \<Rightarrow> exchange_failed srv' (html_headers 200) cs
                         | Inr pg \<Rightarrow>
                             \<lparr>server_after = srv',
                              replies = html_headers 200 @ [Write pg],
                              calls = cs, raised = None\<rparr>)))"
  using assms by (simp add: handle_callback_def Let_def)

lemma callback_calls:
  assumes "dict_get (parse_qs (urlparse_query p)) (lit ''error'') = None"
      and "dict_get (parse_qs (urlparse_query p)) (lit ''code'') = Some (code # others)"
  shows "calls (handle_callback cfg nw srv p) = fst (exchange_code_for_tokens cfg nw srv code)"
  unfolding callback_code [OF assms]
  by (auto simp: exchange_failed_def Let_def split: prod.splits sum.splits option.splits)

lemma callback_verifier:
  "code_verifier (server_after (handle_callback cfg nw srv p)) = code_verifier srv"
  by (auto simp: handle_callback_def exchange_failed_def crash_def Let_def
      split: prod.splits sum.splits option.splits list.splits)

section \<open>Lemmas: the login handler\<close>

lemma nopad_ascii: "\<forall>c \<in> set (base64url_nopad bs). c < 0x80"
  using nopad_chars [of bs] by blast

lemma new_code_challenge_nopad:
  "new_code_challenge (base64url_nopad rnd) = Inr (S256 (base64url_nopad rnd))"
  by (simp add: new_code_challenge_eq [OF nopad_ascii] S256_def)

lemma handle_login_unfold:
  "handle_login cfg srv rnd rnd' =
     (case urlencode (login_params cfg (S256 (base64url_nopad rnd)) (base64url_nopad rnd')) of
        Inl e \<Rightarrow> crash (srv\<lparr>code_verifier := Some (base64url_nopad rnd)\<rparr>) [] [] e
      | Inr q \<Rightarrow>
          \<lparr>server_after = srv\<lparr>code_verifier := Some (base64url_nopad rnd)\<rparr>,
           replies =
             [Send_response 302,
              Send_header (lit ''Location'')
                (lit ''https://'' @ AUTH0_DOMAIN cfg @ lit ''/authorize?'' @ q),
              End_headers],
           calls = [], raised = None\<rparr>)"
  by (simp add: handle_login_def new_code_verifier_eq new_code_challenge_nopad token_urlsafe_eq Let_def)

lemma handle_login_server:
  "server_after (handle_login cfg srv rnd rnd') = srv\<lparr>code_verifier := Some (base64url_nopad rnd)\<rparr>"
  by (simp add: handle_login_unfold crash_def split: sum.splits)

lemma login_params_globals_ok:
  "\<exists>q. urlencode (login_params module_globals (S256 (base64url_nopad rnd)) (base64url_nopad rnd')) = Inr q"
proof (rule urlencode_ok)
  have "\<forall>c \<in> set (S256 (base64url_nopad rnd)). c < 0x80"
    unfolding S256_def by (rule nopad_ascii)
  then show "\<forall>kv\<in>set (login_params module_globals (S256 (base64url_nopad rnd)) (base64url_nopad rnd')).
       (\<forall>c\<in>set (fst kv). c < 0x80) \<and> (\<forall>c\<in>set (snd kv). c < 0x80)"
    using nopad_ascii [of rnd'] globals_ascii
    by (simp add: login_params_def lit_def)
qed

lemma handle_login_globals_no_raise:
  "raised (handle_login module_globals srv rnd rnd') = None"
  using login_params_globals_ok [of rnd rnd'] by (auto simp: handle_login_unfold)


section \<open>Lemmas: the token exchange\<close>

lemma exchange_unfold:
  assumes "code_verifier srv = Some v"
      and "urlencode (token_request_data cfg code v) = Inr q"
  shows "exchange_code_for_tokens cfg nw srv code =
           ([token_request cfg (map of_nat q)],
            case nw (token_request cfg (map of_nat q)) of
              Raises e \<Rightarrow> Inl e
            | Responds b \<Rightarrow>
                (case seq (decode b) json_loads_str of
                   Inl e \<Rightarrow> Inl e
                 | Inr (JObj d) \<Rightarrow> Inr d
                 | Inr _ \<Rightarrow> Inl AttributeError))"
  using assms urlencode_form [OF assms(2)]
  by (auto simp: exchange_code_for_tokens_def Let_def seq_def split: net_outcome.splits sum.splits json.splits)

lemma exchange_calls_cases:
  "fst (exchange_code_for_tokens cfg nw srv code) = [] \<or>
   (\<exists>v q. code_verifier srv = Some v \<and> urlencode (token_request_data cfg code v) = Inr q
      \<and> fst (exchange_code_for_tokens cfg nw srv code) = [token_request cfg (map of_nat q)])"
proof (cases "code_verifier srv")
  case None
  then show ?thesis by (simp add: exchange_calls)
next
  case (Some v)
  show ?thesis
  proof (cases "urlencode (token_request_data cfg code v)")
    case (Inl e)
    then show ?thesis using Some by (simp add: exchange_calls seq_def)
  next
    case (Inr q)
    then show ?thesis using Some exchange_unfold [OF Some Inr] by simp
  qed
qed

lemma callback_calls_cases:
  "calls (handle_callback cfg nw srv p) = [] \<or>
   (\<exists>code v q. code_verifier srv = Some v \<and> urlencode (token_request_data cfg code v) = Inr q
      \<and> calls (handle_callback cfg nw srv p) = [token_request cfg (map of_nat q)])"
proof (cases "dict_get (parse_qs (urlparse_query p)) (lit ''error'')")
  case (Some errs)
  then show ?thesis by (simp add: callback_error)
next
  case None
  show ?thesis
  proof (cases "dict_get (parse_qs (urlparse_query p)) (lit ''code'')")
    case None
    then show ?thesis using \<open>dict_get (parse_qs (urlparse_query p)) (lit ''error'') = None\<close>
      by (simp add: callback_no_code)
  next
    case (Some cs)
    then obtain code others where cs: "cs = code # others"
      using parse_qs_nonempty [OF Some] by (cases cs) auto
    have eq: "calls (handle_callback cfg nw srv p) = fst (exchange_code_for_tokens cfg nw srv code)"
      using callback_calls [OF \<open>dict_get (parse_qs (urlparse_query p)) (lit ''error'') = None\<close> Some [unfolded cs]] .
    show ?thesis
      unfolding eq using exchange_calls_cases [of cfg nw srv code] by blast
  qed
qed

lemma callback_one_call:
  assumes "dict_get (parse_qs (urlparse_query p)) (lit ''error'') = None"
      and "dict_get (parse_qs (urlparse_query p)) (lit ''code'') = Some (code # others)"
      and "code_verifier srv = Some v"
      and "urlencode (token_request_data cfg code v) = Inr q"
  shows "calls (handle_callback cfg nw srv p) = [token_request cfg (map of_nat q)]"
  using callback_calls [OF assms(1,2)] exchange_unfold [OF assms(3,4)] by simp

text \<open>The exchange fails: the reply is 500 and the server is as before.\<close>

lemma callback_exchange_failed:
  assumes "dict_get (parse_qs (urlparse_query p)) (lit ''error'') = None"
      and "dict_get (parse_qs (urlparse_query p)) (lit ''code'') = Some (code # others)"
      and "\<And>tokens. snd (exchange_code_for_tokens cfg nw srv code) = Inr tokens
             \<Longrightarrow> dict_get tokens (lit ''access_token'') = None"
  shows "handle_callback cfg nw srv p =
           \<lparr>server_after = srv, replies = [Send_error 500 (lit ''Token exchange failed: '')],
            calls = fst (exchange_code_for_tokens cfg nw srv code), raised = None\<rparr>"
proof (cases "exchange_code_for_tokens cfg nw srv code")
  case (Pair cs r)
  show ?thesis
  proof (cases r)
    case (Inl e)
    then show ?thesis using Pair by (simp add: callback_code [OF assms(1,2)] exchange_failed_def)
  next
    case (Inr tokens)
    then have "dict_get tokens (lit ''access_token'') = None"
      using assms(3) Pair by simp
    then show ?thesis using Pair Inr by (simp add: callback_code [OF assms(1,2)] exchange_failed_def)
  qed
qed

lemma exchange_raises:
  assumes "\<And>c. nw c = Raises e"
  shows "snd (exchange_code_for_tokens cfg nw srv code) \<noteq> Inr tokens"
  using assms by (auto simp: exchange_code_for_tokens_def Let_def split: option.splits sum.splits)

lemma exchange_responds:
  assumes "\<And>c. nw c = Responds b"
      and "snd (exchange_code_for_tokens cfg nw srv code) = Inr tokens"
  shows "seq (decode b) json_loads_str = Inr (JObj tokens)"
  using assms
  by (auto simp: exchange_code_for_tokens_def Let_def seq_def split: option.splits sum.splits json.splits)

section \<open>Lemmas: the scenario\<close>

lemmas json_eval =
  json_loads_str_def json_loads_def scan_token_def scan_number_def scan_constant_def constants_def
  punct_def is_ws_def is_digit_def cons_char_def backslash_def hexval_def shift_def shift_value_def
  shift_key_def dict_of_def int_of_digits_def scan_frac_def scan_exp_def detect_encoding_def
  decode_with_def

lemmas query_eval =
  parse_qs_def parse_qsl_def urlparse_query_def unquote_plus_def hexval_def decode_replace_def
  is_digit_def dict_get_def

lemma zero_octets:
  "replicate 32 (0::byte) = [0,0,0,0,0,0,0,0,0,0,0,0,0,0,0,0,0,0,0,0,0,0,0,0,0,0,0,0,0,0,0,0]"
  by code_simp

lemma demo_verifier:
  "base64url_nopad (replicate 32 0) = lit ''AAAAAAAAAAAAAAAAAAAAAAAAAAAAAAAAAAAAAAAAAAA''"
  by (simp add: zero_octets nopad_digits base64url_alphabet_def lit_def)

lemma demo_params:
  "dict_get (parse_qs (urlparse_query (lit ''/callback?code=abc''))) (lit ''error'') = None"
  "dict_get (parse_qs (urlparse_query (lit ''/callback?code=abc''))) (lit ''code'') = Some [lit ''abc'']"
  "dict_get (parse_qs (urlparse_query (lit ''/callback?code=abc''))) (lit ''state'') = None"
  by (simp_all add: query_eval lit_def)

lemma demo_response:
  "seq (decode (blit ''{\"access_token\":\"AT1\"}'')) json_loads_str
     = Inr (JObj [(lit ''access_token'', JStr (lit ''AT1''))])"
  by (simp add: seq_def decode_def utf8_decode_def blit_def lit_def json_eval)

lemma demo_form:
  "urlencode (token_request_data module_globals (lit ''abc'')
      (lit ''AAAAAAAAAAAAAAAAAAAAAAAAAAAAAAAAAAAAAAAAAAA'')) =
   Inr (lit ''grant_type=authorization_code&client_id=QhgXEVKKNmJzLwQxZeUuxtfqXlf619S5&code=abc&redirect_uri=http%3A%2F%2Flocalhost%3A8091%2Fcallback&code_verifier=AAAAAAAAAAAAAAAAAAAAAAAAAAAAAAAAAAAAAAAAAAA'')"
  by (simp add: urlencode_def token_request_data_def module_globals_def seq_def quote_plus_def
      lit_def utf8_encode_cp_def quote_byte_def always_safe_def blit_def hexdig_def)

lemma of_nat_lit: "map of_nat (lit s) = blit s"
  by (simp add: lit_def blit_def of_nat_of_char)

lemma route_login:
  "do_GET cfg w srv login_request = handle_login cfg srv (token_bytes w) (urlsafe_bytes w)"
  by (simp add: do_GET_def login_request_def lit_def)

lemma route_callback:
  "startswith p (lit ''/callback'') \<Longrightarrow>
   do_GET cfg w srv \<lparr>path = p, req_headers = hs\<rparr> = handle_callback cfg (network w) srv p"
  by (simp add: do_GET_def)

lemma route_demo_callback:
  "do_GET cfg w srv callback_request = handle_callback cfg (network w) srv (lit ''/callback?code=abc'')"
  by (simp add: do_GET_def callback_request_def lit_def)

lemma demo_login:
  "server_after (do_GET module_globals demo_world srv login_request)
     = srv\<lparr>code_verifier := Some (lit ''AAAAAAAAAAAAAAAAAAAAAAAAAAAAAAAAAAAAAAAAAAA'')\<rparr>"
  by (simp add: route_login handle_login_server demo_world_def demo_verifier)

text \<open>The callback of the scenario on a server that holds the verifier of the scenario.\<close>

lemma demo_callback:
  assumes "code_verifier srv = Some (lit ''AAAAAAAAAAAAAAAAAAAAAAAAAAAAAAAAAAAAAAAAAAA'')"
  shows "do_GET module_globals demo_world srv callback_request =
           \<lparr>server_after = srv\<lparr>access_token := Some (JStr (lit ''AT1'')), id_token := Some (JStr [])\<rparr>,
            replies = html_headers 200 @
              [Write (Success_page (JStr (lit ''AT1'')) (JStr (lit ''Not provided'')) (JObj []))],
            calls = [token_request module_globals (blit ''grant_type=authorization_code&client_id=QhgXEVKKNmJzLwQxZeUuxtfqXlf619S5&code=abc&redirect_uri=http%3A%2F%2Flocalhost%3A8091%2Fcallback&code_verifier=AAAAAAAAAAAAAAAAAAAAAAAAAAAAAAAAAAAAAAAAAAA'')],
            raised = None\<rparr>"
proof -
  have ex: "exchange_code_for_tokens module_globals (network demo_world) srv (lit ''abc'') =
          ([token_request module_globals (blit ''grant_type=authorization_code&client_id=QhgXEVKKNmJzLwQxZeUuxtfqXlf619S5&code=abc&redirect_uri=http%3A%2F%2Flocalhost%3A8091%2Fcallback&code_verifier=AAAAAAAAAAAAAAAAAAAAAAAAAAAAAAAAAAAAAAAAAAA'')],
           Inr [(lit ''access_token'', JStr (lit ''AT1''))])"
    unfolding exchange_unfold [OF assms demo_form]
    by (simp add: demo_world_def demo_response of_nat_lit)
  show ?thesis
    unfolding route_demo_callback callback_code [OF demo_params(1,2)] ex
    by (simp add: dict_get_def lit_def Let_def parse_jwt_payload_def render_success_def
        py_slice_def encodable_def seq_def)
qed


lemma serve_Cons:
  "serve cfg srv (ev # evs) =
     do_GET cfg (fst ev) srv (snd ev) # serve cfg (server_after (do_GET cfg (fst ev) srv (snd ev))) evs"
  by (cases ev) (simp add: Let_def)

lemma demo_run2:
  "serve module_globals fresh_server [(demo_world, login_request), (demo_world, callback_request)] =
     [do_GET module_globals demo_world fresh_server login_request,
      do_GET module_globals demo_world
        (fresh_server\<lparr>code_verifier := Some (lit ''AAAAAAAAAAAAAAAAAAAAAAAAAAAAAAAAAAAAAAAAAAA'')\<rparr>)
        callback_request]"
  by (simp add: Let_def demo_login)

lemma login_calls: "calls (handle_login cfg srv rnd rnd') = []"
  by (simp add: handle_login_unfold crash_def split: sum.splits)

section \<open>Lemmas: runs of the server\<close>

lemma request_eta: "\<lparr>path = path r, req_headers = req_headers r\<rparr> = (r :: request)"
  by simp

lemma route_callback_request:
  "startswith (path r) (lit ''/callback'') \<Longrightarrow>
   do_GET cfg w srv r = handle_callback cfg (network w) srv (path r)"
  by (simp add: do_GET_def)

lemma serve_callbacks:
  assumes "dict_get (parse_qs (urlparse_query p)) (lit ''error'') = None"
      and "dict_get (parse_qs (urlparse_query p)) (lit ''code'') = Some (code # others)"
      and "urlencode (token_request_data cfg code v) = Inr q"
      and "startswith p (lit ''/callback'')"
  shows "code_verifier srv = Some v \<Longrightarrow> \<forall>ev \<in> set evs. path (snd ev) = p \<Longrightarrow>
         all_calls (serve cfg srv evs) = replicate (length evs) (token_request cfg (map of_nat q))"
proof (induction evs arbitrary: srv)
  case Nil
  then show ?case by (simp add: all_calls_def)
next
  case (Cons ev evs)
  have p: "path (snd ev) = p" using Cons.prems(2) by simp
  have g: "do_GET cfg (fst ev) srv (snd ev) = handle_callback cfg (network (fst ev)) srv p"
    using route_callback_request [of "snd ev" cfg "fst ev" srv] assms(4) p by simp
  have c: "calls (do_GET cfg (fst ev) srv (snd ev)) = [token_request cfg (map of_nat q)]"
    unfolding g by (rule callback_one_call [OF assms(1,2) Cons.prems(1) assms(3)])
  have v: "code_verifier (server_after (do_GET cfg (fst ev) srv (snd ev))) = Some v"
    unfolding g using Cons.prems(1) by (simp add: callback_verifier)
  have "all_calls (serve cfg (server_after (do_GET cfg (fst ev) srv (snd ev))) evs)
          = replicate (length evs) (token_request cfg (map of_nat q))"
    using Cons.IH [OF v] Cons.prems(2) by simp
  then show ?case
    using c by (simp add: serve_Cons all_calls_def del: serve.simps)
qed

lemma demo_run3:
  "serve module_globals fresh_server
     [(demo_world, login_request), (demo_world, callback_request), (demo_world, callback_request)] =
     [do_GET module_globals demo_world fresh_server login_request,
      do_GET module_globals demo_world
        (fresh_server\<lparr>code_verifier := Some (lit ''AAAAAAAAAAAAAAAAAAAAAAAAAAAAAAAAAAAAAAAAAAA'')\<rparr>)
        callback_request,
      do_GET module_globals demo_world
        (fresh_server\<lparr>code_verifier := Some (lit ''AAAAAAAAAAAAAAAAAAAAAAAAAAAAAAAAAAAAAAAAAAA''),
           access_token := Some (JStr (lit ''AT1'')), id_token := Some (JStr [])\<rparr>)
        callback_request]"
  by (simp add: Let_def demo_login demo_callback)

section \<open>Lemmas: when a token is stored\<close>

lemma exchange_Inr:
  assumes "exchange_code_for_tokens cfg nw srv code = (cs, Inr tokens)"
  shows "\<exists>form b. cs = [token_request cfg form] \<and> nw (token_request cfg form) = Responds b
           \<and> seq (decode b) json_loads_str = Inr (JObj tokens)"
proof (cases "code_verifier srv")
  case None
  then show ?thesis using assms by (simp add: exchange_code_for_tokens_def)
next
  case (Some v)
  show ?thesis
  proof (cases "seq (urlencode (token_request_data cfg code v)) encode")
    case (Inl e)
    then show ?thesis using assms Some by (simp add: exchange_code_for_tokens_def)
  next
    case (Inr form)
    show ?thesis
    proof (cases "nw (token_request cfg form)")
      case (Raises e)
      then show ?thesis using assms Some Inr by (simp add: exchange_code_for_tokens_def Let_def)
    next
      case (Responds b)
      then have "cs = [token_request cfg form] \<and> seq (decode b) json_loads_str = Inr (JObj tokens)"
        using assms Some Inr
        by (auto simp: exchange_code_for_tokens_def Let_def seq_def split: sum.splits json.splits)
      then show ?thesis using Responds by blast
    qed
  qed
qed

lemma callback_token_step:
  assumes "access_token (server_after (handle_callback cfg nw srv p)) \<noteq> access_token srv
         \<or> id_token (server_after (handle_callback cfg nw srv p)) \<noteq> id_token srv"
  shows "\<exists>c \<in> set (calls (handle_callback cfg nw srv p)). answered_with_token nw c"
proof (cases "dict_get (parse_qs (urlparse_query p)) (lit ''error'')")
  case (Some errs)
  then show ?thesis using assms by (simp add: callback_error)
next
  case None
  note noerr = this
  show ?thesis
  proof (cases "dict_get (parse_qs (urlparse_query p)) (lit ''code'')")
    case None
    then show ?thesis using assms noerr by (simp add: callback_no_code)
  next
    case (Some cs)
    then obtain code others where cs: "cs = code # others"
      using parse_qs_nonempty [OF Some] by (cases cs) auto
    note unf = callback_code [OF noerr Some [unfolded cs], of cfg nw srv]
    obtain calls' r where ex: "exchange_code_for_tokens cfg nw srv code = (calls', r)"
      by (cases "exchange_code_for_tokens cfg nw srv code")
    show ?thesis
    proof (cases r)
      case (Inl e)
      then show ?thesis using assms ex by (simp add: unf exchange_failed_def)
    next
      case (Inr tokens)
      from exchange_Inr [OF ex [unfolded Inr]] obtain form b where
        fb: "calls' = [token_request cfg form]" "nw (token_request cfg form) = Responds b"
            "seq (decode b) json_loads_str = Inr (JObj tokens)"
        by blast
      show ?thesis
      proof (cases "dict_get tokens (lit ''access_token'')")
        case None
        then show ?thesis using assms ex Inr by (simp add: unf exchange_failed_def)
      next
        case (Some token)
        have "answered_with_token nw (token_request cfg form)"
          using fb Some by (simp add: answered_with_token_def)
        moreover have "calls (handle_callback cfg nw srv p) = [token_request cfg form]"
          using ex Inr Some fb(1)
          by (simp add: unf exchange_failed_def Let_def split: sum.splits)
        ultimately show ?thesis by simp
      qed
    qed
  qed
qed

lemma do_GET_token_step:
  assumes "access_token (server_after (do_GET cfg w srv r)) \<noteq> access_token srv"
  shows "\<exists>c \<in> set (calls (do_GET cfg w srv r)). answered_with_token (network w) c"
proof (cases "startswith (path r) (lit ''/callback'')")
  case True
  then show ?thesis
    using assms callback_token_step [of cfg "network w" srv "path r"]
    by (simp add: do_GET_def)
next
  case False
  then have "access_token (server_after (do_GET cfg w srv r)) = access_token srv"
    by (auto simp: do_GET_def handle_home_def handle_login_server handle_protected_api_def crash_def
        Let_def split: option.splits sum.splits)
  then show ?thesis using assms by simp
qed

lemma final_server_Cons:
  "final_server srv (serve cfg srv (ev # evs)) =
     final_server (server_after (do_GET cfg (fst ev) srv (snd ev)))
       (serve cfg (server_after (do_GET cfg (fst ev) srv (snd ev))) evs)"
  by (cases evs) (simp_all add: serve_Cons final_server_def del: serve.simps)

lemma length_serve: "length (serve cfg srv evs) = length evs"
  by (induction evs arbitrary: srv) (simp_all add: serve_Cons del: serve.simps(2))

lemma run_token:
  "access_token (final_server srv (serve cfg srv evs)) \<noteq> access_token srv \<Longrightarrow>
   \<exists>i < length evs. \<exists>c \<in> set (calls (serve cfg srv evs ! i)).
      answered_with_token (network (fst (evs ! i))) c"
proof (induction evs arbitrary: srv)
  case Nil
  then show ?case by (simp add: final_server_def)
next
  case (Cons ev evs)
  let ?eff = "do_GET cfg (fst ev) srv (snd ev)"
  show ?case
  proof (cases "access_token (server_after ?eff) = access_token srv")
    case True
    then have "access_token (final_server (server_after ?eff) (serve cfg (server_after ?eff) evs))
                 \<noteq> access_token (server_after ?eff)"
      using Cons.prems by (simp add: final_server_Cons)
    from Cons.IH [OF this] obtain i c where
      "i < length evs" "c \<in> set (calls (serve cfg (server_after ?eff) evs ! i))"
      "answered_with_token (network (fst (evs ! i))) c"
      by blast
    then have "Suc i < length (ev # evs) \<and> c \<in> set (calls (serve cfg srv (ev # evs) ! Suc i))
               \<and> answered_with_token (network (fst ((ev # evs) ! Suc i))) c"
      by (simp add: serve_Cons del: serve.simps)
    then show ?thesis by blast
  next
    case False
    from do_GET_token_step [OF False] obtain c where
      "c \<in> set (calls ?eff)" "answered_with_token (network (fst ev)) c"
      by blast
    then have "0 < length (ev # evs) \<and> c \<in> set (calls (serve cfg srv (ev # evs) ! 0))
               \<and> answered_with_token (network (fst ((ev # evs) ! 0))) c"
      by (simp add: serve_Cons del: serve.simps)
    then show ?thesis by blast
  qed
qed


lemma demo_empty_response:
  "seq (decode (blit ''{}'')) json_loads_str = Inr (JObj [])"
  by (simp add: seq_def decode_def utf8_decode_def blit_def json_eval)

lemma demo_exchange_calls:
  "fst (exchange_code_for_tokens module_globals nw
      (fresh_server\<lparr>code_verifier := Some (lit ''AAAAAAAAAAAAAAAAAAAAAAAAAAAAAAAAAAAAAAAAAAA'')\<rparr>)
      (lit ''abc'')) =
   [token_request module_globals (blit ''grant_type=authorization_code&client_id=QhgXEVKKNmJzLwQxZeUuxtfqXlf619S5&code=abc&redirect_uri=http%3A%2F%2Flocalhost%3A8091%2Fcallback&code_verifier=AAAAAAAAAAAAAAAAAAAAAAAAAAAAAAAAAAAAAAAAAAA'')]"
proof -
  have v: "code_verifier (fresh_server\<lparr>code_verifier := Some (lit ''AAAAAAAAAAAAAAAAAAAAAAAAAAAAAAAAAAAAAAAAAAA'')\<rparr>)
      = Some (lit ''AAAAAAAAAAAAAAAAAAAAAAAAAAAAAAAAAAAAAAAAAAA'')" by simp
  show ?thesis
    unfolding exchange_unfold [OF v demo_form] by (simp add: of_nat_lit)
qed

section \<open>Lemmas: logins and the exchange request\<close>


lemma login_reply:
  assumes "raised (handle_login cfg srv rnd rnd') = None"
  shows "\<exists>q. urlencode (login_params cfg (S256 (base64url_nopad rnd)) (base64url_nopad rnd')) = Inr q
           \<and> replies (handle_login cfg srv rnd rnd') =
                [Send_response 302,
                 Send_header (lit ''Location'')
                   (lit ''https://'' @ AUTH0_DOMAIN cfg @ lit ''/authorize?'' @ q),
                 End_headers]"
  using assms by (auto simp: handle_login_unfold crash_def split: sum.splits)



lemma login_param_names:
  "map fst (login_params cfg chal st) =
     [lit ''response_type'', lit ''client_id'', lit ''redirect_uri'', lit ''scope'',
      lit ''code_challenge'', lit ''code_challenge_method'', lit ''state'']"
  by (simp add: login_params_def)

lemma login_param_values:
  "dict_get (login_params cfg chal st) (lit ''code_challenge'') = Some chal"
  "dict_get (login_params cfg chal st) (lit ''code_challenge_method'') = Some (lit ''S256'')"
  "dict_get (login_params cfg chal st) (lit ''redirect_uri'') = Some (REDIRECT_URI cfg)"
  "dict_get (login_params cfg chal st) (lit ''code_verifier'') = None"
  by (simp_all add: login_params_def dict_get_def lit_def)

lemma token_request_values:
  "dict_get (token_request_data cfg code v) (lit ''redirect_uri'') = Some (REDIRECT_URI cfg)"
  "dict_get (token_request_data cfg code v) (lit ''code_verifier'') = Some v"
  by (simp_all add: token_request_data_def dict_get_def lit_def)

lemma verifier_not_fixed_value:
  assumes "length rnd = 32"
  shows "base64url_nopad rnd \<notin> {lit ''code'', CLIENT_ID module_globals, REDIRECT_URI module_globals,
           SCOPE module_globals, lit ''S256''}"
proof -
  have len: "length (base64url_nopad rnd) = 43" using assms by (simp add: length_nopad)
  have "length x \<noteq> 43" if "x \<in> {lit ''code'', CLIENT_ID module_globals, REDIRECT_URI module_globals,
           SCOPE module_globals, lit ''S256''}" for x
    using that by (auto simp: module_globals_def lit_def)
  then show ?thesis using len by blast
qed

section \<open>Lemmas: decoding Base64 and the claims decoder\<close>

lemma index_of_nth: "distinct xs \<Longrightarrow> i < length xs \<Longrightarrow> index_of (xs ! i) xs = Some i"
proof (induction xs arbitrary: i)
  case Nil
  then show ?case by simp
next
  case (Cons x xs)
  show ?case
  proof (cases i)
    case 0
    then show ?thesis by simp
  next
    case (Suc j)
    then have j: "j < length xs" using Cons.prems by simp
    then have "xs ! j \<in> set xs" by simp
    then have "xs ! j \<noteq> x" using Cons.prems by auto
    then show ?thesis using Suc Cons.IH [of j] Cons.prems j by simp
  qed
qed

lemma b64_table_distinct: "distinct b64_table"
  by (simp add: b64_table_def blit_def)

lemma table_digit: "i < 64 \<Longrightarrow> table_a2b_base64 (b64_table ! i) = Some i"
  by (simp add: table_a2b_base64_def index_of_nth b64_table_distinct b64_table_len)

lemma pad_not_in_table: "b64_pad \<notin> set b64_table"
  by (simp add: b64_table_def blit_def b64_pad_def)

lemma table_not_pad: "i < 64 \<Longrightarrow> b64_table ! i \<noteq> b64_pad"
proof
  assume i: "i < 64" and e: "b64_table ! i = b64_pad"
  from i have "b64_table ! i \<in> set b64_table" by (simp add: b64_table_len)
  with e pad_not_in_table show False by simp
qed

lemma decode_translation_table:
  "map (\<lambda>c. urlsafe_decode_translation (of_nat (of_char c))) base64url_alphabet = b64_table"
  by (simp add: b64_table_def blit_def base64url_alphabet_def urlsafe_decode_translation_def)

lemma decode_translation_digit:
  assumes "i < 64"
  shows "urlsafe_decode_translation (of_nat (of_char (base64url_alphabet ! i))) = b64_table ! i"
proof -
  have "map (\<lambda>c. urlsafe_decode_translation (of_nat (of_char c))) base64url_alphabet ! i = b64_table ! i"
    by (simp only: decode_translation_table)
  then show ?thesis using assms by (simp add: alphabet_len)
qed

lemma a2b_pads0: "a2b_base64 0 l p (replicate k b64_pad) = Inr []"
  by (induction k) auto


lemma a2b_pads2: "a2b_base64 2 l 0 (replicate k b64_pad) = (if 2 \<le> k then Inr [] else Inl BinasciiError)"
proof (cases k)
  case 0
  then show ?thesis by simp
next
  case (Suc j)
  then show ?thesis by (cases j) auto
qed

lemma a2b_pads3: "a2b_base64 3 l 0 (replicate k b64_pad) = (if 1 \<le> k then Inr [] else Inl BinasciiError)"
  by (cases k) auto

lemma a2b_step0:
  "i < 64 \<Longrightarrow> a2b_base64 0 l p (b64_table ! i # cs) = a2b_base64 1 i 0 cs"
  by (simp add: table_digit table_not_pad)

lemma a2b_step1:
  "i < 64 \<Longrightarrow> a2b_base64 1 l p (b64_table ! i # cs) =
     (case a2b_base64 2 (i mod 16) 0 cs of
        Inl e \<Rightarrow> Inl e | Inr bs \<Rightarrow> Inr (of_nat (l * 4 + i div 16) # bs))"
  by (simp add: table_digit table_not_pad numeral_2_eq_2 [symmetric])

lemma a2b_step2:
  "i < 64 \<Longrightarrow> a2b_base64 2 l p (b64_table ! i # cs) =
     (case a2b_base64 3 (i mod 4) 0 cs of
        Inl e \<Rightarrow> Inl e | Inr bs \<Rightarrow> Inr (of_nat (l * 16 + i div 4) # bs))"
  by (simp add: table_digit table_not_pad)

lemma a2b_step3:
  "i < 64 \<Longrightarrow> a2b_base64 3 l p (b64_table ! i # cs) =
     (case a2b_base64 0 0 0 cs of
        Inl e \<Rightarrow> Inl e | Inr bs \<Rightarrow> Inr (of_nat (l * 64 + i) # bs))"
  by (simp add: table_digit table_not_pad)

lemma digit_bounds:
  "b < 256 \<Longrightarrow> (a mod 4) * 16 + b div 16 < (64::nat)"
  "c < 256 \<Longrightarrow> (b mod 16) * 4 + c div 64 < (64::nat)"
proof -
  have "a mod 4 \<le> 3" by simp
  then have "(a mod 4) * 16 \<le> 48" by simp
  moreover assume "b < 256"
  then have "b div 16 < 16" by simp
  ultimately show "(a mod 4) * 16 + b div 16 < 64" by simp
next
  have "b mod 16 \<le> 15" by simp
  then have "(b mod 16) * 4 \<le> 60" by simp
  moreover assume "c < 256"
  then have "c div 64 < 4" by simp
  ultimately show "(b mod 16) * 4 + c div 64 < 64" by simp
qed

lemma digit_join:
  "b < 256 \<Longrightarrow> ((a mod 4) * 16 + b div 16) div 16 = a mod (4::nat)"
  "b < 256 \<Longrightarrow> ((a mod 4) * 16 + b div 16) mod 16 = b div (16::nat)"
  "c < 256 \<Longrightarrow> ((b mod 16) * 4 + c div 64) div 4 = b mod (16::nat)"
  "c < 256 \<Longrightarrow> ((b mod 16) * 4 + c div 64) mod 4 = c div (64::nat)"
proof -
  assume "b < 256"
  then have b: "b div 16 < 16" by simp
  then show "((a mod 4) * 16 + b div 16) div 16 = a mod 4" by simp
  from b show "((a mod 4) * 16 + b div 16) mod 16 = b div 16" by simp
next
  assume "c < 256"
  then have c: "c div 64 < 4" by simp
  then show "((b mod 16) * 4 + c div 64) div 4 = b mod 16" by simp
  from c show "((b mod 16) * 4 + c div 64) mod 4 = c div 64" by simp
qed

lemma a2b_quad:
  assumes "a < 256" "b < 256" "c < 256"
  shows "a2b_base64 0 0 0 (b64_table ! (a div 4) # b64_table ! ((a mod 4) * 16 + b div 16)
           # b64_table ! ((b mod 16) * 4 + c div 64) # b64_table ! (c mod 64) # cs) =
         (case a2b_base64 0 0 0 cs of
            Inl e \<Rightarrow> Inl e
          | Inr bs \<Rightarrow> Inr (of_nat a # of_nat b # of_nat c # bs))"
proof -
  have d: "a div 4 < 64" "(a mod 4) * 16 + b div 16 < 64" "(b mod 16) * 4 + c div 64 < 64" "c mod 64 < 64"
    using assms by (simp_all add: digit_bounds)
  have e: "(a div 4) * 4 + ((a mod 4) * 16 + b div 16) div 16 = a"
      "(((a mod 4) * 16 + b div 16) mod 16) * 16 + ((b mod 16) * 4 + c div 64) div 4 = b"
      "(((b mod 16) * 4 + c div 64) mod 4) * 64 + c mod 64 = c"
    using assms by (simp_all add: digit_join)
  show ?thesis
    apply (simp only: a2b_step0 [OF d(1)] a2b_step1 [OF d(2)] a2b_step2 [OF d(3)] a2b_step3 [OF d(4)] e)
    apply (cases "a2b_base64 0 0 0 cs")
     apply simp_all
    done
qed

lemma a2b_b2a:
  assumes "\<forall>n \<in> set ns. n < 256"
      and "length ns mod 3 = 1 \<longrightarrow> 2 \<le> k"
      and "length ns mod 3 = 2 \<longrightarrow> 1 \<le> k"
  shows "a2b_base64 0 0 0 (map (\<lambda>i. b64_table ! i) (b64_digits ns) @ replicate k b64_pad)
           = Inr (map of_nat ns)"
  using assms
proof (induction ns rule: b64_digits.induct)
  case (1 a b c rest)
  then have "a2b_base64 0 0 0 (map (\<lambda>i. b64_table ! i) (b64_digits rest) @ replicate k b64_pad)
           = Inr (map of_nat rest)"
    by (simp add: mod3_Suc3)
  moreover have "a < 256" "b < 256" "c < 256" using 1(2) by simp_all
  ultimately show ?case
    by (simp only: b64_digits.simps list.map append.simps a2b_quad sum.case)
next
  case (2 a b)
  then have ab: "a < 256" "b < 256" and k: "1 \<le> k" by simp_all
  have d: "a div 4 < 64" "(a mod 4) * 16 + b div 16 < 64" "(b mod 16) * 4 < 64"
    using ab digit_bounds(2) [of b 0] by (simp_all add: digit_bounds)
  have e: "(a div 4) * 4 + ((a mod 4) * 16 + b div 16) div 16 = a"
      "(((a mod 4) * 16 + b div 16) mod 16) * 16 + ((b mod 16) * 4) div 4 = b"
    using ab by (simp_all add: digit_join)
  have "a2b_base64 3 (((b mod 16) * 4) mod 4) 0 (replicate k b64_pad) = Inr []"
    using k by (simp only: a2b_pads3 if_True)
  then show ?case
    by (simp only: b64_digits.simps list.map append.simps a2b_step0 [OF d(1)] a2b_step1 [OF d(2)]
        a2b_step2 [OF d(3)] e sum.case)
next
  case (3 a)
  then have a: "a < 256" and k: "2 \<le> k" by simp_all
  have d: "a div 4 < 64" "(a mod 4) * 16 < 64"
    using a digit_bounds(1) [of a 0] by (simp_all add: digit_bounds)
  have e: "(a div 4) * 4 + ((a mod 4) * 16) div 16 = a"
    using a by simp
  have "a2b_base64 2 (((a mod 4) * 16) mod 16) 0 (replicate k b64_pad) = Inr []"
    using k by (simp only: a2b_pads2 if_True)
  then show ?case
    by (simp only: b64_digits.simps list.map append.simps a2b_step0 [OF d(1)] a2b_step1 [OF d(2)]
        e sum.case)
next
  case 4
  then show ?case by (simp add: a2b_pads0 del: a2b_base64.simps)
qed

lemma urlsafe_roundtrip:
  assumes "length bs mod 3 = 1 \<longrightarrow> 2 \<le> k"
      and "length bs mod 3 = 2 \<longrightarrow> 1 \<le> k"
  shows "urlsafe_b64decode (base64url_nopad bs @ replicate k 0x3D) = Inr bs"
proof -
  have ascii: "\<not> (\<exists>c \<in> set (base64url_nopad bs @ replicate k 0x3D). 0x80 \<le> c)"
    using nopad_ascii [of bs] by auto
  have m: "map (\<lambda>c. urlsafe_decode_translation (of_nat c)) (base64url_nopad bs)
        = map (\<lambda>i. b64_table ! i) (b64_digits (map unat bs))"
    using digits_bytes_lt64 [of bs] by (simp add: nopad_digits decode_translation_digit)
  have p: "urlsafe_decode_translation 0x3D = b64_pad"
    by (simp add: urlsafe_decode_translation_def b64_pad_def)
  have n: "\<forall>n \<in> set (map unat bs). n < 256"
    using unsigned_less [where 'b = 8] by fastforce
  have "a2b_base64 0 0 0 (map (\<lambda>i. b64_table ! i) (b64_digits (map unat bs)) @ replicate k b64_pad)
          = Inr (map of_nat (map unat bs))"
    using assms by (intro a2b_b2a [OF n]) simp_all
  moreover have "map of_nat (map unat bs) = bs"
    by (simp add: map_idI)
  ultimately show ?thesis
    using ascii by (simp add: urlsafe_b64decode_def m p del: set_append)
qed


lemma base64url_nopad_inj:
  assumes "base64url_nopad bs = base64url_nopad bs'"
  shows "bs = bs'"
proof -
  have a: "urlsafe_b64decode (base64url_nopad bs @ replicate 2 0x3D) = Inr bs"
    by (rule urlsafe_roundtrip) simp_all
  have b: "urlsafe_b64decode (base64url_nopad bs' @ replicate 2 0x3D) = Inr bs'"
    by (rule urlsafe_roundtrip) simp_all
  have "(Inr bs :: exn + byte list) = Inr bs'"
    unfolding a [symmetric] b [symmetric] by (simp only: assms)
  then show ?thesis by (simp only: sum.inject)
qed































section \<open>Lemmas: error replies of the callback\<close>



section \<open>Lemmas: the redirect URI in a run\<close>
















section \<open>Lemmas: the lenient decoder\<close>








section \<open>The claims\<close>

text \<open>
  C4.  For the 32 octets the random source returns, the verifier is their base64url
  encoding without padding: 43 characters of the unreserved set of RFC 7636 (so between 43
  and 128 characters); the challenge is the base64url encoding without padding of the
  SHA-256 digest of the verifier; and the login handler stores that verifier and sends
  that challenge.
\<close>

theorem pkce_pair:
  assumes "length rnd = 32"
  shows "new_code_verifier rnd = Inr (base64url_nopad rnd)
       \<and> length (base64url_nopad rnd) = 43
       \<and> 43 \<le> length (base64url_nopad rnd) \<and> length (base64url_nopad rnd) \<le> 128
       \<and> set (base64url_nopad rnd) \<subseteq> unreserved
       \<and> encode (base64url_nopad rnd) = Inr (map of_nat (base64url_nopad rnd))
       \<and> new_code_challenge (base64url_nopad rnd)
             = Inr (base64url_nopad (sha256_digest (map of_nat (base64url_nopad rnd))))
       \<and> code_verifier (server_after (handle_login cfg srv rnd rnd')) = Some (base64url_nopad rnd)
       \<and> (\<forall>q. urlencode (login_params cfg (S256 (base64url_nopad rnd)) (base64url_nopad rnd')) = Inr q
              \<longrightarrow> replies (handle_login cfg srv rnd rnd') =
                    [Send_response 302,
                     Send_header (lit ''Location'')
                       (lit ''https://'' @ AUTH0_DOMAIN cfg @ lit ''/authorize?'' @ q),
                     End_headers])"
proof -
  have len: "length (base64url_nopad rnd) = 43"
    using assms by (simp add: length_nopad)
  have chars: "set (base64url_nopad rnd) \<subseteq> unreserved"
    using nopad_chars [of rnd] by blast
  have stored: "code_verifier (server_after (handle_login cfg srv rnd rnd')) = Some (base64url_nopad rnd)"
    by (simp add: handle_login_server)
  have sent: "\<forall>q. urlencode (login_params cfg (S256 (base64url_nopad rnd)) (base64url_nopad rnd')) = Inr q
              \<longrightarrow> replies (handle_login cfg srv rnd rnd') =
                    [Send_response 302,
                     Send_header (lit ''Location'')
                       (lit ''https://'' @ AUTH0_DOMAIN cfg @ lit ''/authorize?'' @ q),
                     End_headers]"
    by (simp add: handle_login_unfold)
  show ?thesis
    using len chars stored sent
    by (simp add: new_code_verifier_eq encode_ascii [OF nopad_ascii]
        new_code_challenge_eq [OF nopad_ascii])
qed

theorem pkce_pair_witness:
  "length (replicate 32 (0 :: byte)) = 32
   \<and> new_code_verifier (replicate 32 0) = Inr (base64url_nopad (replicate 32 0))
   \<and> length (base64url_nopad (replicate 32 0)) = 43
   \<and> new_code_challenge (base64url_nopad (replicate 32 0))
        = Inr (base64url_nopad (sha256_digest (map of_nat (base64url_nopad (replicate 32 0)))))
   \<and> replies (handle_login module_globals fresh_server (replicate 32 0) (replicate 32 0)) \<noteq> []"
proof -
  have h: "length (replicate 32 (0 :: byte)) = 32" by simp
  obtain q where q: "urlencode (login_params module_globals (S256 (base64url_nopad (replicate 32 0)))
                       (base64url_nopad (replicate 32 0))) = Inr q"
    using login_params_globals_ok by blast
  show ?thesis
    using pkce_pair [OF h, of module_globals fresh_server "replicate 32 0"] q by simp
qed



text \<open>
  C2 (as the code has it).  The server keeps no record of an exchange: every delivery of
  a callback that carries a code and no error makes one exchange call when a verifier is
  stored, so \<open>n\<close> deliveries of the same callback make \<open>n\<close> calls, whatever the token
  endpoint answered before.
\<close>

theorem every_delivery_exchanges:
  assumes "dict_get (parse_qs (urlparse_query p)) (lit ''error'') = None"
      and "dict_get (parse_qs (urlparse_query p)) (lit ''code'') = Some (code # others)"
      and "code_verifier srv = Some v"
      and "urlencode (token_request_data cfg code v) = Inr q"
      and "startswith p (lit ''/callback'')"
      and "\<forall>ev \<in> set evs. path (snd ev) = p"
  shows "all_calls (serve cfg srv evs) = replicate (length evs) (token_request cfg (map of_nat q))
       \<and> length (all_calls (serve cfg srv evs)) = length evs"
  using serve_callbacks [OF assms(1,2,4,5,3,6)] by simp

theorem every_delivery_exchanges_witness:
  "dict_get (parse_qs (urlparse_query (lit ''/callback?code=abc''))) (lit ''error'') = None
   \<and> dict_get (parse_qs (urlparse_query (lit ''/callback?code=abc''))) (lit ''code'') = Some [lit ''abc'']
   \<and> startswith (lit ''/callback?code=abc'') (lit ''/callback'')
   \<and> length (all_calls (serve module_globals
         (fresh_server\<lparr>code_verifier := Some (lit ''AAAAAAAAAAAAAAAAAAAAAAAAAAAAAAAAAAAAAAAAAAA'')\<rparr>)
         [(demo_world, callback_request), (demo_world, callback_request),
          (demo_world, callback_request)])) = 3"
proof -
  have h5: "startswith (lit ''/callback?code=abc'') (lit ''/callback'')"
    by (simp add: lit_def)
  have h3: "code_verifier (fresh_server\<lparr>code_verifier := Some (lit ''AAAAAAAAAAAAAAAAAAAAAAAAAAAAAAAAAAAAAAAAAAA'')\<rparr>)
              = Some (lit ''AAAAAAAAAAAAAAAAAAAAAAAAAAAAAAAAAAAAAAAAAAA'')"
    by simp
  have h6: "\<forall>ev \<in> set [(demo_world, callback_request), (demo_world, callback_request),
              (demo_world, callback_request)]. path (snd ev) = lit ''/callback?code=abc''"
    by (simp add: callback_request_def)
  show ?thesis
    using every_delivery_exchanges [OF demo_params(1) demo_params(2) h3 demo_form h5 h6] demo_params h5
    by simp
qed

text \<open>
  The claim as stated fails: after a login the same callback delivered twice is exchanged
  twice, and the second delivery gets the success page.
\<close>

theorem single_use_counterexample:
  "length (all_calls (serve module_globals fresh_server
     [(demo_world, login_request), (demo_world, callback_request), (demo_world, callback_request)])) = 2
   \<and> replies (last (serve module_globals fresh_server
     [(demo_world, login_request), (demo_world, callback_request), (demo_world, callback_request)]))
       = html_headers 200 @
           [Write (Success_page (JStr (lit ''AT1'')) (JStr (lit ''Not provided'')) (JObj []))]"
  unfolding demo_run3
  by (simp add: all_calls_def route_login login_calls demo_callback)

text \<open>
  C7.  When the token endpoint answers with an HTTP error status, or with a JSON object
  that has no \<open>access_token\<close>, the callback replies 500 and leaves the server as it was;
  and in any run from a fresh server an access token is stored only if some exchange call
  was answered with a JSON object holding an \<open>access_token\<close>.
\<close>

theorem failed_exchange_stores_nothing:
  "(dict_get (parse_qs (urlparse_query p)) (lit ''error'') = None
      \<and> dict_get (parse_qs (urlparse_query p)) (lit ''code'') = Some (code # others)
      \<and> (\<forall>c. nw c = Raises (HTTPError status))
    \<longrightarrow> handle_callback cfg nw srv p =
          \<lparr>server_after = srv, replies = [Send_error 500 (lit ''Token exchange failed: '')],
           calls = fst (exchange_code_for_tokens cfg nw srv code), raised = None\<rparr>)
   \<and> (dict_get (parse_qs (urlparse_query p)) (lit ''error'') = None
      \<and> dict_get (parse_qs (urlparse_query p)) (lit ''code'') = Some (code # others)
      \<and> (\<forall>c. nw c = Responds b)
      \<and> seq (decode b) json_loads_str = Inr (JObj d)
      \<and> dict_get d (lit ''access_token'') = None
    \<longrightarrow> handle_callback cfg nw srv p =
          \<lparr>server_after = srv, replies = [Send_error 500 (lit ''Token exchange failed: '')],
           calls = fst (exchange_code_for_tokens cfg nw srv code), raised = None\<rparr>)
   \<and> (access_token (final_server fresh_server (serve cfg fresh_server evs)) \<noteq> None
    \<longrightarrow> (\<exists>i < length evs. \<exists>c \<in> set (calls (serve cfg fresh_server evs ! i)).
           answered_with_token (network (fst (evs ! i))) c))"
proof -
  have a: "handle_callback cfg nw srv p =
          \<lparr>server_after = srv, replies = [Send_error 500 (lit ''Token exchange failed: '')],
           calls = fst (exchange_code_for_tokens cfg nw srv code), raised = None\<rparr>"
    if "dict_get (parse_qs (urlparse_query p)) (lit ''error'') = None"
       "dict_get (parse_qs (urlparse_query p)) (lit ''code'') = Some (code # others)"
       "\<forall>c. nw c = Raises (HTTPError status)"
  proof (rule callback_exchange_failed [OF that(1,2)])
    fix tokens
    assume "snd (exchange_code_for_tokens cfg nw srv code) = Inr tokens"
    then show "dict_get tokens (lit ''access_token'') = None"
      using exchange_raises [of nw "HTTPError status" cfg srv code tokens] that(3) by simp
  qed
  have b: "handle_callback cfg nw srv p =
          \<lparr>server_after = srv, replies = [Send_error 500 (lit ''Token exchange failed: '')],
           calls = fst (exchange_code_for_tokens cfg nw srv code), raised = None\<rparr>"
    if "dict_get (parse_qs (urlparse_query p)) (lit ''error'') = None"
       "dict_get (parse_qs (urlparse_query p)) (lit ''code'') = Some (code # others)"
       "\<forall>c. nw c = Responds b" "seq (decode b) json_loads_str = Inr (JObj d)"
       "dict_get d (lit ''access_token'') = None"
  proof (rule callback_exchange_failed [OF that(1,2)])
    fix tokens
    assume "snd (exchange_code_for_tokens cfg nw srv code) = Inr tokens"
    then have "seq (decode b) json_loads_str = Inr (JObj tokens)"
      using exchange_responds [of nw b cfg srv code tokens] that(3) by simp
    then show "dict_get tokens (lit ''access_token'') = None"
      using that(4,5) by simp
  qed
  have c: "\<exists>i < length evs. \<exists>c \<in> set (calls (serve cfg fresh_server evs ! i)).
           answered_with_token (network (fst (evs ! i))) c"
    if "access_token (final_server fresh_server (serve cfg fresh_server evs)) \<noteq> None"
    using run_token [of fresh_server cfg evs] that by (simp add: fresh_server_def)
  show ?thesis using a b c by blast
qed

theorem failed_exchange_stores_nothing_witness:
  "handle_callback module_globals (\<lambda>c. Raises (HTTPError 400))
      (fresh_server\<lparr>code_verifier := Some (lit ''AAAAAAAAAAAAAAAAAAAAAAAAAAAAAAAAAAAAAAAAAAA'')\<rparr>)
      (lit ''/callback?code=abc'') =
     \<lparr>server_after = fresh_server\<lparr>code_verifier := Some (lit ''AAAAAAAAAAAAAAAAAAAAAAAAAAAAAAAAAAAAAAAAAAA'')\<rparr>,
      replies = [Send_error 500 (lit ''Token exchange failed: '')],
      calls = [token_request module_globals (blit ''grant_type=authorization_code&client_id=QhgXEVKKNmJzLwQxZeUuxtfqXlf619S5&code=abc&redirect_uri=http%3A%2F%2Flocalhost%3A8091%2Fcallback&code_verifier=AAAAAAAAAAAAAAAAAAAAAAAAAAAAAAAAAAAAAAAAAAA'')],
      raised = None\<rparr>
   \<and> handle_callback module_globals (\<lambda>c. Responds (blit ''{}''))
      (fresh_server\<lparr>code_verifier := Some (lit ''AAAAAAAAAAAAAAAAAAAAAAAAAAAAAAAAAAAAAAAAAAA'')\<rparr>)
      (lit ''/callback?code=abc'') =
     \<lparr>server_after = fresh_server\<lparr>code_verifier := Some (lit ''AAAAAAAAAAAAAAAAAAAAAAAAAAAAAAAAAAAAAAAAAAA'')\<rparr>,
      replies = [Send_error 500 (lit ''Token exchange failed: '')],
      calls = [token_request module_globals (blit ''grant_type=authorization_code&client_id=QhgXEVKKNmJzLwQxZeUuxtfqXlf619S5&code=abc&redirect_uri=http%3A%2F%2Flocalhost%3A8091%2Fcallback&code_verifier=AAAAAAAAAAAAAAAAAAAAAAAAAAAAAAAAAAAAAAAAAAA'')],
      raised = None\<rparr>
   \<and> access_token (final_server fresh_server (serve module_globals fresh_server
         [(demo_world, login_request), (demo_world, callback_request)])) = Some (JStr (lit ''AT1''))
   \<and> (\<exists>i < length [(demo_world, login_request), (demo_world, callback_request)].
        \<exists>c \<in> set (calls (serve module_globals fresh_server
                [(demo_world, login_request), (demo_world, callback_request)] ! i)).
          answered_with_token
            (network (fst ([(demo_world, login_request), (demo_world, callback_request)] ! i))) c)"
proof -
  have fin: "access_token (final_server fresh_server (serve module_globals fresh_server
         [(demo_world, login_request), (demo_world, callback_request)])) = Some (JStr (lit ''AT1''))"
    unfolding demo_run2 by (simp add: final_server_def demo_callback)
  have e: "dict_get [] (lit ''access_token'') = (None :: json option)"
    by (simp add: dict_get_def)
  show ?thesis
    using failed_exchange_stores_nothing
        [of "lit ''/callback?code=abc''" "lit ''abc''" "[]" "\<lambda>c. Raises (HTTPError 400)" 400
            module_globals
            "fresh_server\<lparr>code_verifier := Some (lit ''AAAAAAAAAAAAAAAAAAAAAAAAAAAAAAAAAAAAAAAAAAA'')\<rparr>"
            "blit ''{}''" "[]" "[]"]
      failed_exchange_stores_nothing
        [of "lit ''/callback?code=abc''" "lit ''abc''" "[]" "\<lambda>c. Responds (blit ''{}'')" 400
            module_globals
            "fresh_server\<lparr>code_verifier := Some (lit ''AAAAAAAAAAAAAAAAAAAAAAAAAAAAAAAAAAAAAAAAAAA'')\<rparr>"
            "blit ''{}''" "[]"
            "[(demo_world, login_request), (demo_world, callback_request)]"]
      demo_params demo_empty_response e fin
    by (simp add: demo_exchange_calls)
qed

text \<open>
  C8 (as the code has it).  The call of the token endpoint is made without a timeout
  argument, so nothing bounds it.  If the call raises (a timeout of the socket
  included), the callback replies 500, leaves the server as it was and makes no second
  call.
\<close>

theorem exchange_without_timeout:
  "(\<forall>c \<in> set (calls (handle_callback cfg nw srv p)). timeout_arg c = None)
   \<and> length (calls (handle_callback cfg nw srv p)) \<le> 1
   \<and> (dict_get (parse_qs (urlparse_query p)) (lit ''error'') = None
      \<and> dict_get (parse_qs (urlparse_query p)) (lit ''code'') = Some (code # others)
      \<and> (\<forall>c. nw c = Raises e)
    \<longrightarrow> handle_callback cfg nw srv p =
          \<lparr>server_after = srv, replies = [Send_error 500 (lit ''Token exchange failed: '')],
           calls = fst (exchange_code_for_tokens cfg nw srv code), raised = None\<rparr>)"
proof -
  have a: "(\<forall>c \<in> set (calls (handle_callback cfg nw srv p)). timeout_arg c = None)
           \<and> length (calls (handle_callback cfg nw srv p)) \<le> 1"
    using callback_calls_cases [of cfg nw srv p] by (auto simp: token_request_def)
  have b: "handle_callback cfg nw srv p =
          \<lparr>server_after = srv, replies = [Send_error 500 (lit ''Token exchange failed: '')],
           calls = fst (exchange_code_for_tokens cfg nw srv code), raised = None\<rparr>"
    if "dict_get (parse_qs (urlparse_query p)) (lit ''error'') = None"
       "dict_get (parse_qs (urlparse_query p)) (lit ''code'') = Some (code # others)"
       "\<forall>c. nw c = Raises e"
  proof (rule callback_exchange_failed [OF that(1,2)])
    fix tokens
    assume "snd (exchange_code_for_tokens cfg nw srv code) = Inr tokens"
    then show "dict_get tokens (lit ''access_token'') = None"
      using exchange_raises [of nw e cfg srv code tokens] that(3) by simp
  qed
  show ?thesis using a b by blast
qed

theorem exchange_without_timeout_witness:
  "handle_callback module_globals (\<lambda>c. Raises TimeoutError)
      (fresh_server\<lparr>code_verifier := Some (lit ''AAAAAAAAAAAAAAAAAAAAAAAAAAAAAAAAAAAAAAAAAAA'')\<rparr>)
      (lit ''/callback?code=abc'') =
     \<lparr>server_after = fresh_server\<lparr>code_verifier := Some (lit ''AAAAAAAAAAAAAAAAAAAAAAAAAAAAAAAAAAAAAAAAAAA'')\<rparr>,
      replies = [Send_error 500 (lit ''Token exchange failed: '')],
      calls = [token_request module_globals (blit ''grant_type=authorization_code&client_id=QhgXEVKKNmJzLwQxZeUuxtfqXlf619S5&code=abc&redirect_uri=http%3A%2F%2Flocalhost%3A8091%2Fcallback&code_verifier=AAAAAAAAAAAAAAAAAAAAAAAAAAAAAAAAAAAAAAAAAAA'')],
      raised = None\<rparr>"
  using exchange_without_timeout
      [of module_globals "\<lambda>c. Raises TimeoutError"
          "fresh_server\<lparr>code_verifier := Some (lit ''AAAAAAAAAAAAAAAAAAAAAAAAAAAAAAAAAAAAAAAAAAA'')\<rparr>"
          "lit ''/callback?code=abc''" "lit ''abc''" "[]" TimeoutError]
    demo_params
  by (simp add: demo_exchange_calls)

text \<open>
  The claim as stated fails: the one exchange call of a login followed by a callback is
  made with no timeout.
\<close>

theorem bounded_timeout_counterexample:
  "map timeout_arg (all_calls (serve module_globals fresh_server
     [(demo_world, login_request), (demo_world, callback_request)])) = [None]"
  unfolding demo_run2
  by (simp add: all_calls_def route_login login_calls demo_callback token_request_def)




text \<open>
  C5.  The authorization URL of a login is built from the configuration, the challenge
  \<open>S256 verifier\<close> and the \<open>state\<close> token alone: no parameter is named
  \<open>code_verifier\<close>, \<open>code_challenge\<close> is the derived challenge,
  \<open>code_challenge_method\<close> is \<open>S256\<close>, and with the module globals the 43-character
  verifier is none of the fixed parameter values.  The verifier goes to the server
  attribute only.
\<close>

theorem verifier_not_in_authorization_request:
  "(raised (handle_login cfg srv rnd rnd') = None \<longrightarrow>
      (\<exists>q. urlencode (login_params cfg (S256 (base64url_nopad rnd)) (base64url_nopad rnd')) = Inr q
         \<and> replies (handle_login cfg srv rnd rnd') =
              [Send_response 302,
               Send_header (lit ''Location'')
                 (lit ''https://'' @ AUTH0_DOMAIN cfg @ lit ''/authorize?'' @ q),
               End_headers]))
   \<and> calls (handle_login cfg srv rnd rnd') = []
   \<and> code_verifier (server_after (handle_login cfg srv rnd rnd')) = Some (base64url_nopad rnd)
   \<and> map fst (login_params cfg chal st) =
        [lit ''response_type'', lit ''client_id'', lit ''redirect_uri'', lit ''scope'',
         lit ''code_challenge'', lit ''code_challenge_method'', lit ''state'']
   \<and> dict_get (login_params cfg chal st) (lit ''code_verifier'') = None
   \<and> dict_get (login_params cfg chal st) (lit ''code_challenge'') = Some chal
   \<and> dict_get (login_params cfg chal st) (lit ''code_challenge_method'') = Some (lit ''S256'')
   \<and> (length rnd = 32 \<longrightarrow>
        base64url_nopad rnd \<notin> {lit ''code'', CLIENT_ID module_globals, REDIRECT_URI module_globals,
           SCOPE module_globals, lit ''S256''})
   \<and> raised (handle_login module_globals srv rnd rnd') = None"
proof -
  have "calls (handle_login cfg srv rnd rnd') = []"
    by (simp add: handle_login_unfold crash_def split: sum.splits)
  then show ?thesis
    using login_reply [of cfg srv rnd rnd'] verifier_not_fixed_value [of rnd]
    by (simp add: handle_login_server login_param_names login_param_values
        handle_login_globals_no_raise del: insert_iff)
qed

theorem verifier_not_in_authorization_request_witness:
  "\<exists>q. urlencode (login_params module_globals
            (S256 (lit ''AAAAAAAAAAAAAAAAAAAAAAAAAAAAAAAAAAAAAAAAAAA''))
            (lit ''AAAAAAAAAAAAAAAAAAAAAAAAAAAAAAAAAAAAAAAAAAA'')) = Inr q
       \<and> replies (handle_login module_globals fresh_server (replicate 32 0) (replicate 32 0)) =
            [Send_response 302,
             Send_header (lit ''Location'')
               (lit ''https://dev-a85i5cax3v3cy6l4.us.auth0.com/authorize?'' @ q),
             End_headers]"
  using verifier_not_in_authorization_request [of module_globals fresh_server "replicate 32 0"
      "replicate 32 0"]
    handle_login_globals_no_raise [of fresh_server "replicate 32 0" "replicate 32 0"]
  by (simp add: demo_verifier module_globals_def lit_def)









end
